theory Spec2Isabelle
  imports Main "HOL-Library.Monad_Syntax"
begin

unbundle bit_operations_syntax

section \<open>Numbers, squares, pieces\<close>

text \<open>
  Every TypeScript \<open>number\<close> of the engine that holds an integer is an \<open>int\<close>.
  The bitwise operators of the source work on 32-bit two's complement values; on \<open>int\<close>
  the operations \<open>AND\<close>, \<open>OR\<close>, \<open>push_bit\<close> and \<open>drop_bit\<close> are two's complement
  on unboundedly many bits, which agrees with the source for every value in the 32-bit
  range (squares, piece bytes and castle maps are all below \<open>2 ^ 16\<close>).
\<close>

type_synonym Coord = int
type_synonym Space = int
type_synonym Color = int
type_synonym PieceType = int
type_synonym CastleMap = int
type_synonym GameStatus = int

text \<open>
  A counter read out of a \<open>seen\<close> dictionary is a JavaScript number: an integer, or
  \<open>NaN\<close> once arithmetic was done on a missing entry (\<open>undefined\<close>).
\<close>

datatype jsnum = Num int | NaN

fun js_add :: "int \<Rightarrow> jsnum \<Rightarrow> jsnum" where
  "js_add k (Num n) = Num (k + n)"
| "js_add k NaN = NaN"

text \<open>\<open>x >= 3\<close> on a JavaScript number: every comparison with \<open>NaN\<close> is false.\<close>

fun js_ge :: "jsnum \<Rightarrow> int \<Rightarrow> bool" where
  "js_ge (Num n) k = (k \<le> n)"
| "js_ge NaN k = False"

subsection \<open>models/piece-type.ts\<close>

definition PIECETYPE_PAWN :: PieceType where "PIECETYPE_PAWN = 1"
definition PIECETYPE_BISHOP :: PieceType where "PIECETYPE_BISHOP = 2"
definition PIECETYPE_KNIGHT :: PieceType where "PIECETYPE_KNIGHT = 3"
definition PIECETYPE_ROOK :: PieceType where "PIECETYPE_ROOK = 4"
definition PIECETYPE_QUEEN :: PieceType where "PIECETYPE_QUEEN = 5"
definition PIECETYPE_KING :: PieceType where "PIECETYPE_KING = 6"

subsection \<open>models/color.ts, models/space.ts, models/game-status.ts\<close>

text \<open>
  Modelled from the spec: \<open>models/color.ts\<close> is not among the sources. Section 3.2:
  the color is bit \<open>0x08\<close> of a piece byte, \<open>0\<close> for white and \<open>8\<close> for black.
\<close>

definition COLOR_WHITE :: Color where "COLOR_WHITE = 0"
definition COLOR_BLACK :: Color where "COLOR_BLACK = 8"

text \<open>
  Modelled from the spec: \<open>models/space.ts\<close> is not among the sources. Section 3.2:
  \<open>0\<close> is the empty square; otherwise the low three bits are the piece type, bit
  \<open>0x08\<close> the color and bit \<open>0x10\<close> the has-moved flag.
\<close>

definition SPACE_EMPTY :: Space where "SPACE_EMPTY = 0"

definition spaceGetType :: "Space \<Rightarrow> PieceType" where
  "spaceGetType sp = sp AND 7"

definition spaceGetColor :: "Space \<Rightarrow> Color" where
  "spaceGetColor sp = sp AND 8"

definition spaceHasMoved :: "Space \<Rightarrow> bool" where
  "spaceHasMoved sp = (sp AND 16 \<noteq> 0)"

definition encodePieceSpace :: "PieceType \<Rightarrow> Color \<Rightarrow> bool \<Rightarrow> Space" where
  "encodePieceSpace t c moved = t OR c OR (if moved then 16 else 0)"

text \<open>
  Modelled from the spec: \<open>models/game-status.ts\<close> is not among the sources. Section
  3.8 gives the order of the eight values, \<open>ACTIVE = 0\<close> first; the model numbers them
  consecutively.
\<close>

definition GAMESTATUS_ACTIVE :: GameStatus where "GAMESTATUS_ACTIVE = 0"
definition GAMESTATUS_CHECKMATE :: GameStatus where "GAMESTATUS_CHECKMATE = 1"
definition GAMESTATUS_RESIGNED :: GameStatus where "GAMESTATUS_RESIGNED = 2"
definition GAMESTATUS_DRAW :: GameStatus where "GAMESTATUS_DRAW = 3"
definition GAMESTATUS_DRAW_STALEMATE :: GameStatus where "GAMESTATUS_DRAW_STALEMATE = 4"
definition GAMESTATUS_DRAW_REPETITION :: GameStatus where "GAMESTATUS_DRAW_REPETITION = 5"
definition GAMESTATUS_DRAW_FIFTYMOVES :: GameStatus where "GAMESTATUS_DRAW_FIFTYMOVES = 6"
definition GAMESTATUS_DRAW_NOMATERIAL :: GameStatus where "GAMESTATUS_DRAW_NOMATERIAL = 7"

subsection \<open>models/coord.ts\<close>

text \<open>
  \<open>idx >>> 4\<close> is the unsigned shift: the operand is read as an unsigned 32-bit value
  first.
\<close>

definition parseCoord :: "Coord \<Rightarrow> int \<times> int" where
  "parseCoord idx = (idx AND 7, drop_bit 4 (idx mod 2 ^ 32))"

definition buildCoord :: "int \<Rightarrow> int \<Rightarrow> Coord" where
  "buildCoord file rank = push_bit 4 (rank AND 7) OR (file AND 7)"

definition FILES :: string where "FILES = ''abcdefgh''"
definition RANKS :: string where "RANKS = ''12345678''"

text \<open>
  \<open>FILES[file] + RANKS[rank]\<close>: the file index is always within the string; a rank
  index beyond it reads \<open>undefined\<close>, which the concatenation renders as the text
  \<open>undefined\<close>.
\<close>

definition coordToAN :: "Coord \<Rightarrow> string" where
  "coordToAN idx =
     (case parseCoord idx of (file, rank) \<Rightarrow>
        [FILES ! nat file] @ (if rank < 8 then [RANKS ! nat rank] else ''undefined''))"

subsection \<open>models/castle-map.ts\<close>

definition buildCastleMap :: "Coord \<Rightarrow> Coord \<Rightarrow> Coord \<Rightarrow> Coord \<Rightarrow> CastleMap" where
  "buildCastleMap whiteQRook whiteKRook blackQRook blackKRook =
     (whiteKRook AND 15) OR push_bit 4 (whiteQRook AND 15) OR
     push_bit 8 (blackKRook AND 15) OR push_bit 12 (blackQRook AND 15)"

definition castleMapKingMoved :: "CastleMap \<Rightarrow> Color \<Rightarrow> CastleMap" where
  "castleMapKingMoved cm color =
     (if color = COLOR_WHITE then (cm AND 0xff00) OR 0x0088 else (cm AND 0x00ff) OR 0x8800)"

definition castleMapRookMoved :: "CastleMap \<Rightarrow> Coord \<Rightarrow> CastleMap" where
  "castleMapRookMoved cm coord =
     (let kbase = (if coord < 0x40 then 0 else 8 :: nat);
          qbase = kbase + 4;
          file = coord AND 0x0f
      in if drop_bit kbase (cm mod 2 ^ 32) AND 0xf = file
         then (cm AND NOT (push_bit kbase 0xf)) OR push_bit kbase 0x8
         else if drop_bit qbase (cm mod 2 ^ 32) AND 0xf = file
         then (cm AND NOT (push_bit qbase 0xf)) OR push_bit qbase 0x8
         else cm)"

definition castleMapGetFile :: "CastleMap \<Rightarrow> Color \<Rightarrow> bool \<Rightarrow> CastleMap" where
  "castleMapGetFile cm color kingSide =
     drop_bit (nat (color + (if kingSide then 0 else 4))) (cm mod 2 ^ 32) AND 0xf"

section \<open>Positions\<close>

subsection \<open>models/board.ts, models/move.ts: the data\<close>

record PriorState =
  clock :: int
  moveNum :: int
  ep :: Coord
  status :: GameStatus
  castles :: CastleMap

record Move =
  what :: Space
  from' :: Coord
  to' :: Coord
  capture :: Space
  captureCoord :: Coord
  castleRook :: Space
  castleRookFrom :: Coord
  castleRookTo :: Coord
  promote :: PieceType
  markEnPassant :: Coord
  prior :: PriorState

text \<open>
  Modelled from the spec: \<open>logic/hash-board.ts\<close> is not among the sources. Section 6.4:
  the hash is made of the piece placement, the side to move, the castle rights and
  the en-passant target, and any encoding injective on those fields may stand for the
  string. The model keeps the four fields themselves.
\<close>

type_synonym hash = "int list \<times> Color \<times> CastleMap \<times> Coord"

text \<open>
  A \<open>Layer\<close> has the five fields of a \<open>PriorState\<close> and six more; the record extends
  \<open>PriorState\<close>, so the selectors \<open>clock\<close>, \<open>moveNum\<close>, \<open>ep\<close>, \<open>status\<close> and
  \<open>castles\<close> read both, as the field names of the source do. \<open>board\<close> is the
  \<open>Uint8Array\<close> of 128 bytes, \<open>attacks\<close> the one of 256 counters, \<open>moveCache\<close> the
  object keyed by color (\<open>None\<close> is \<open>null\<close>).
\<close>

record Layer = PriorState +
  board :: "int list"
  attacks :: "nat list"
  turn :: Color
  seen :: "hash \<rightharpoonup> jsnum"
  moveCache :: "Color \<Rightarrow> Move list option"
  pieceList :: "Coord list"

text \<open>
  The \<open>Board\<close> object: the private stack \<open>#layers\<close> and the index \<open>#layerIdx\<close>. Its
  field \<open>current\<close> always refers to \<open>#layers[#layerIdx]\<close> (\<open>reset\<close>, \<open>save\<close> and
  \<open>restore\<close> are the only writers), so the model reads it off the stack.
\<close>

record Board =
  layerIdx :: nat
  layers :: "Layer list"

definition current :: "Board \<Rightarrow> Layer" where
  "current b = layers b ! layerIdx b"

definition set_current :: "Board \<Rightarrow> Layer \<Rightarrow> Board" where
  "set_current b L = b\<lparr>layers := (layers b)[layerIdx b := L]\<rparr>"

definition newLayer :: Layer where
  "newLayer = \<lparr>clock = 0, moveNum = 1, ep = 0x88, status = GAMESTATUS_ACTIVE, castles = 0,
     board = replicate 128 SPACE_EMPTY, attacks = replicate 256 0, turn = COLOR_WHITE,
     seen = Map.empty, moveCache = (\<lambda>c. None), pieceList = []\<rparr>"

definition getPriorState :: "Board \<Rightarrow> PriorState" where
  "getPriorState b =
     \<lparr>clock = clock (current b), moveNum = moveNum (current b), ep = ep (current b),
      status = status (current b), castles = castles (current b)\<rparr>"

subsection \<open>The attack map\<close>

definition DIRS :: "int list" where
  "DIRS = [16, 1, -16, -1, 17, -15, -17, 15]"

definition KNIGHT :: "int list" where
  "KNIGHT = [31, 33, 14, 18, -18, -14, -33, -31]"

definition PAWN_CAPS :: "int list" where
  "PAWN_CAPS = [-1, 1]"

definition PROMOTIONS :: "PieceType list" where
  "PROMOTIONS = [PIECETYPE_QUEEN, PIECETYPE_ROOK, PIECETYPE_KNIGHT, PIECETYPE_BISHOP]"

text \<open>
  Modelled from the spec: \<open>logic/attack-map.ts\<close> (\<open>attackMapAddPiece\<close>,
  \<open>attackMapRemovePiece\<close>, \<open>attackMapIsAttacked\<close>) is not among the sources. Section
  4.1: cell \<open>2 * square + color_bit\<close> counts the pieces of that color that attack the
  square through the current occupancy: a pawn its two forward diagonals, a knight its
  eight jumps, a king its eight neighbours, a bishop, rook or queen every square of its
  rays up to and including the first occupied one. Adding or removing a piece also
  re-scans the sliders whose rays pass through the square, which "guarantees the map
  remains exact after any mutation". The model takes that guarantee as the meaning of the
  two update functions: after either, the counters are the ones of the occupancy (of the
  board without the piece for a removal, which the source calls before it writes the
  square).
\<close>

fun ray_reaches :: "int list \<Rightarrow> nat \<Rightarrow> Coord \<Rightarrow> int \<Rightarrow> Coord \<Rightarrow> bool" where
  "ray_reaches bd 0 sq step x = False"
| "ray_reaches bd (Suc n) sq step x =
     (let nxt = sq + step in
      if nxt AND 0x88 \<noteq> 0 then False
      else if nxt = x then True
      else if bd ! nat nxt \<noteq> SPACE_EMPTY then False
      else ray_reaches bd n nxt step x)"

definition piece_attacks :: "int list \<Rightarrow> Coord \<Rightarrow> Coord \<Rightarrow> bool" where
  "piece_attacks bd s x =
     (let sp = bd ! nat s; t = spaceGetType sp; c = spaceGetColor sp in
      if t = PIECETYPE_PAWN then
        (let oneUp = s + (if c = COLOR_WHITE then 16 else -16) in list_ex (\<lambda>d. x = oneUp + d) PAWN_CAPS)
      else if t = PIECETYPE_KNIGHT then list_ex (\<lambda>d. x = s + d) KNIGHT
      else if t = PIECETYPE_KING then list_ex (\<lambda>d. x = s + d) DIRS
      else if t = PIECETYPE_BISHOP then list_ex (\<lambda>d. ray_reaches bd 8 s d x) (drop 4 DIRS)
      else if t = PIECETYPE_ROOK then list_ex (\<lambda>d. ray_reaches bd 8 s d x) (take 4 DIRS)
      else if t = PIECETYPE_QUEEN then list_ex (\<lambda>d. ray_reaches bd 8 s d x) DIRS
      else False)"

definition squares :: "Coord list" where
  "squares = filter (\<lambda>s. s AND 0x88 = 0) [0..127]"

definition attack_count :: "int list \<Rightarrow> Coord \<Rightarrow> Color \<Rightarrow> nat" where
  "attack_count bd x color =
     (if x AND 0x88 \<noteq> 0 then 0
      else length (filter (\<lambda>s. bd ! nat s \<noteq> SPACE_EMPTY \<and> spaceGetColor (bd ! nat s) = color
                              \<and> piece_attacks bd s x) squares))"

definition attack_map :: "int list \<Rightarrow> nat list" where
  "attack_map bd =
     map (\<lambda>i. attack_count bd (int (i div 2)) (if even i then COLOR_WHITE else COLOR_BLACK))
       [0..<256]"

definition attackMapAddPiece :: "Layer \<Rightarrow> Coord \<Rightarrow> Color \<Rightarrow> PieceType \<Rightarrow> Layer" where
  "attackMapAddPiece L idx color t = L\<lparr>attacks := attack_map (board L)\<rparr>"

definition attackMapRemovePiece :: "Layer \<Rightarrow> Coord \<Rightarrow> Color \<Rightarrow> PieceType \<Rightarrow> Layer" where
  "attackMapRemovePiece L idx color t =
     L\<lparr>attacks := attack_map ((board L)[nat idx := SPACE_EMPTY])\<rparr>"

definition attackMapIsAttacked :: "Board \<Rightarrow> Coord \<Rightarrow> Color \<Rightarrow> bool" where
  "attackMapIsAttacked b sq color =
     (0 < attacks (current b) ! nat (2 * sq + (if color = COLOR_WHITE then 0 else 1)))"

subsection \<open>models/board.ts: the methods\<close>

text \<open>
  \<open>assert\<close> throws a \<open>ChessError\<close>; a function that can throw returns an \<open>option\<close>,
  and \<open>None\<close> is the throw. \<open>get\<close> and \<open>set\<close> assert \<open>(idx & 0x88) === 0\<close>. An index
  that passes the test but lies outside the typed array of 128 bytes (a negative one,
  or one from 128 on) would read \<open>undefined\<close>; no caller of the engine produces one,
  and the model stops with \<open>None\<close> there too.
\<close>

definition in_array :: "Coord \<Rightarrow> bool" where
  "in_array idx = (idx AND 0x88 = 0 \<and> 0 \<le> idx \<and> idx < 128)"

definition Board_get :: "Board \<Rightarrow> Coord \<Rightarrow> Space option" where
  "Board_get b idx = (if in_array idx then Some (board (current b) ! nat idx) else None)"

text \<open>\<open>list.indexOf(idx)\<close>: the first position, or \<open>-1\<close>.\<close>

fun indexOf :: "Coord list \<Rightarrow> Coord \<Rightarrow> int" where
  "indexOf [] x = -1"
| "indexOf (y # ys) x =
     (if y = x then 0 else (let r = indexOf ys x in if r < 0 then -1 else r + 1))"

text \<open>
  The removal branch of \<open>set\<close>: swap the entry with the last one unless it is the last,
  then \<open>pop\<close>. When \<open>indexOf\<close> is \<open>-1\<close> the write \<open>list[-1] = temp\<close> adds a property
  and no element.
\<close>

definition pieceList_remove :: "Coord list \<Rightarrow> Coord \<Rightarrow> Coord list" where
  "pieceList_remove list idx =
     (let pieceIdx = indexOf list idx;
          last = int (length list) - 1;
          list1 = (if pieceIdx \<noteq> last then
                     (let temp = list ! nat last;
                          list' = list[nat last := idx]
                      in if 0 \<le> pieceIdx then list'[nat pieceIdx := temp] else list')
                   else list)
      in butlast list1)"

definition Layer_set :: "Layer \<Rightarrow> Coord \<Rightarrow> Space \<Rightarrow> Layer" where
  "Layer_set L idx space =
     (let prior = board L ! nat idx;
          L1 = (if prior \<noteq> SPACE_EMPTY
                then attackMapRemovePiece L idx (spaceGetColor prior) (spaceGetType prior) else L);
          L2 = L1\<lparr>board := (board L1)[nat idx := space mod 256]\<rparr>;
          L3 = (if space \<noteq> SPACE_EMPTY
                then attackMapAddPiece L2 idx (spaceGetColor space) (spaceGetType space) else L2)
      in if (prior = SPACE_EMPTY) \<noteq> (space = SPACE_EMPTY) then
           (if prior = SPACE_EMPTY then L3\<lparr>pieceList := pieceList L3 @ [idx]\<rparr>
            else L3\<lparr>pieceList := pieceList_remove (pieceList L3) idx\<rparr>)
         else L3)"

definition Board_set :: "Board \<Rightarrow> Coord \<Rightarrow> Space \<Rightarrow> Board option" where
  "Board_set b idx space =
     (if in_array idx then Some (set_current b (Layer_set (current b) idx space)) else None)"

text \<open>
  \<open>putBoardHash\<close> and \<open>removeBoardHash\<close> walk \<open>idx = #layerIdx, ..., 0\<close> and stop at
  the first layer whose \<open>seen\<close> has the hash; \<open>findSeen\<close> is that walk and returns the
  index with the entry found.
\<close>

fun findSeen :: "Layer list \<Rightarrow> nat \<Rightarrow> hash \<Rightarrow> (nat \<times> jsnum) option" where
  "findSeen ls 0 h = (case seen (ls ! 0) h of Some v \<Rightarrow> Some (0, v) | None \<Rightarrow> None)"
| "findSeen ls (Suc i) h =
     (case seen (ls ! Suc i) h of Some v \<Rightarrow> Some (Suc i, v) | None \<Rightarrow> findSeen ls i h)"

definition putBoardHash :: "Board \<Rightarrow> hash \<Rightarrow> jsnum \<times> Board" where
  "putBoardHash b h =
     (case findSeen (layers b) (layerIdx b) h of
        Some (idx, v) \<Rightarrow>
          (let num = js_add 1 v
           in (num, set_current b ((current b)\<lparr>seen := (seen (current b))(h \<mapsto> num)\<rparr>)))
      | None \<Rightarrow> (Num 1, set_current b ((current b)\<lparr>seen := (seen (current b))(h \<mapsto> Num 1)\<rparr>)))"

text \<open>
  \<open>this.current.seen[hash]--\<close>: the entry of the \<^emph>\<open>current\<close> layer is read, converted
  to a number (\<open>undefined\<close> gives \<open>NaN\<close>), and the number minus one is stored there.
\<close>

fun js_dec :: "jsnum option \<Rightarrow> jsnum" where
  "js_dec (Some (Num n)) = Num (n - 1)"
| "js_dec (Some NaN) = NaN"
| "js_dec None = NaN"

definition removeBoardHash :: "Board \<Rightarrow> hash \<Rightarrow> Board" where
  "removeBoardHash b h =
     (case findSeen (layers b) (layerIdx b) h of
        Some (idx, v) \<Rightarrow>
          set_current b ((current b)\<lparr>seen := (seen (current b))(h \<mapsto> js_dec (seen (current b) h))\<rparr>)
      | None \<Rightarrow> b)"

definition copyLayer :: "Layer \<Rightarrow> Layer \<Rightarrow> Layer" where
  "copyLayer src dest =
     dest\<lparr>board := board src, attacks := attacks src, clock := clock src,
          moveNum := moveNum src, ep := ep src, status := status src, turn := turn src,
          seen := Map.empty, castles := castles src,
          moveCache := (moveCache dest)(COLOR_WHITE := moveCache src COLOR_WHITE,
                                        COLOR_BLACK := moveCache src COLOR_BLACK),
          pieceList := pieceList src\<rparr>"

definition Board_save :: "Board \<Rightarrow> Board" where
  "Board_save b =
     (let idx = layerIdx b + 1;
          ls = (if idx = length (layers b) then layers b @ [newLayer] else layers b)
      in \<lparr>layerIdx = idx, layers = ls[idx := copyLayer (ls ! (idx - 1)) (ls ! idx)]\<rparr>)"

definition Board_restore :: "Board \<Rightarrow> Board" where
  "Board_restore b = (if 0 < layerIdx b then b\<lparr>layerIdx := layerIdx b - 1\<rparr> else b)"

definition hashBoard :: "Board \<Rightarrow> hash" where
  "hashBoard b = (board (current b), turn (current b), castles (current b), ep (current b))"

subsection \<open>models/move.ts\<close>

definition createFullMove ::
  "Space \<Rightarrow> Coord \<Rightarrow> Coord \<Rightarrow> Space \<Rightarrow> Coord \<Rightarrow> Space \<Rightarrow> Coord \<Rightarrow> Coord \<Rightarrow> PieceType \<Rightarrow> Coord
     \<Rightarrow> PriorState \<Rightarrow> Move" where
  "createFullMove wh fr t cap capCoord rook rookFrom rookTo prom markEp pr =
     \<lparr>what = wh, from' = fr, to' = t, capture = cap, captureCoord = capCoord,
      castleRook = rook, castleRookFrom = rookFrom, castleRookTo = rookTo,
      promote = prom, markEnPassant = markEp, prior = pr\<rparr>"

definition createSimpleMove :: "Space \<Rightarrow> Coord \<Rightarrow> Coord \<Rightarrow> PriorState \<Rightarrow> Move" where
  "createSimpleMove wh fr t pr = createFullMove wh fr t 0 0 0 0 0 0 0 pr"

definition createSimpleCapture ::
  "Space \<Rightarrow> Coord \<Rightarrow> Coord \<Rightarrow> Space \<Rightarrow> Coord \<Rightarrow> PriorState \<Rightarrow> Move" where
  "createSimpleCapture wh fr t cap capCoord pr = createFullMove wh fr t cap capCoord 0 0 0 0 0 pr"

definition createCastle ::
  "Space \<Rightarrow> Coord \<Rightarrow> Coord \<Rightarrow> Space \<Rightarrow> Coord \<Rightarrow> Coord \<Rightarrow> PriorState \<Rightarrow> Move" where
  "createCastle wh fr t rook rookFrom rookTo pr = createFullMove wh fr t 0 0 rook rookFrom rookTo 0 0 pr"

definition moveToPromotion :: "Move \<Rightarrow> PieceType \<Rightarrow> Move" where
  "moveToPromotion m p = m\<lparr>promote := p\<rparr>"

section \<open>Applying and reverting a move\<close>

text \<open>
  Modelled from the spec: \<open>logic/perform-move.ts\<close> is not among the sources. Section
  4.4, in its order: a captured piece is cleared first; \<open>from\<close> is cleared and the piece,
  with its moved bit set, is placed on \<open>to\<close>; a castling rook is cleared from its origin
  and placed, moved bit set, on its destination; a promotion replaces the piece on \<open>to\<close>
  by one of the mover's color and the promotion type, moved bit set. Then the
  en-passant target (\<open>0x88\<close> when the move marks none), the clock, the castle rights,
  the move number and the turn are updated, both move caches are dropped, and the hash
  of the new position is put into \<open>seen\<close>.
\<close>

definition performMove_castles :: "CastleMap \<Rightarrow> Move \<Rightarrow> CastleMap" where
  "performMove_castles cm m =
     (let cm1 = (if spaceGetType (what m) = PIECETYPE_KING
                 then castleMapKingMoved cm (spaceGetColor (what m))
                 else if spaceGetType (what m) = PIECETYPE_ROOK
                 then castleMapRookMoved cm (from' m) else cm)
      in if capture m \<noteq> 0 \<and> spaceGetType (capture m) = PIECETYPE_ROOK
         then castleMapRookMoved cm1 (captureCoord m) else cm1)"

definition performMove_meta :: "Layer \<Rightarrow> Move \<Rightarrow> Layer" where
  "performMove_meta L m =
     L\<lparr>ep := (if markEnPassant m \<noteq> 0 then markEnPassant m else 0x88),
       clock := (if spaceGetType (what m) = PIECETYPE_PAWN \<or> capture m \<noteq> 0 then 0 else clock L + 1),
       castles := performMove_castles (castles L) m,
       moveNum := (if spaceGetColor (what m) = COLOR_BLACK then moveNum L + 1 else moveNum L),
       turn := 8 - turn L,
       moveCache := (moveCache L)(COLOR_WHITE := None, COLOR_BLACK := None)\<rparr>"

definition performMove :: "Board \<Rightarrow> Move \<Rightarrow> Board option" where
  "performMove b m = do {
     b1 \<leftarrow> (if capture m \<noteq> 0 then Board_set b (captureCoord m) SPACE_EMPTY else Some b);
     b2 \<leftarrow> Board_set b1 (from' m) SPACE_EMPTY;
     b3 \<leftarrow> Board_set b2 (to' m) (what m OR 16);
     b4 \<leftarrow> (if castleRook m \<noteq> 0 then do {
              b' \<leftarrow> Board_set b3 (castleRookFrom m) SPACE_EMPTY;
              Board_set b' (castleRookTo m) (castleRook m OR 16) }
            else Some b3);
     b5 \<leftarrow> (if promote m \<noteq> 0
            then Board_set b4 (to' m) (encodePieceSpace (promote m) (spaceGetColor (what m)) True)
            else Some b4);
     let b6 = set_current b5 (performMove_meta (current b5) m);
     Some (snd (putBoardHash b6 (hashBoard b6)))
   }"

text \<open>\<open>logic/revert-move.ts\<close>.\<close>

definition revertMove_meta :: "Layer \<Rightarrow> Move \<Rightarrow> Layer" where
  "revertMove_meta L m =
     L\<lparr>clock := clock (prior m), moveNum := moveNum (prior m), ep := ep (prior m),
       status := status (prior m), castles := castles (prior m), turn := 8 - turn L,
       moveCache := (moveCache L)(COLOR_WHITE := None, COLOR_BLACK := None)\<rparr>"

definition revertMove :: "Board \<Rightarrow> Move \<Rightarrow> Board option" where
  "revertMove b m = do {
     let b0 = removeBoardHash b (hashBoard b);
     b1 \<leftarrow> Board_set b0 (from' m) (what m);
     b2 \<leftarrow> Board_set b1 (to' m) SPACE_EMPTY;
     b3 \<leftarrow> (if capture m \<noteq> 0 then Board_set b2 (captureCoord m) (capture m) else Some b2);
     b4 \<leftarrow> (if castleRook m \<noteq> 0 then do {
              b' \<leftarrow> Board_set b3 (castleRookTo m) SPACE_EMPTY;
              Board_set b' (castleRookFrom m) (castleRook m) }
            else Some b3);
     Some (set_current b4 (revertMove_meta (current b4) m))
   }"

section \<open>The move generator (logic/king-in-danger.ts, logic/list-valid-moves.ts)\<close>

fun kingInDanger_loop :: "Board \<Rightarrow> Color \<Rightarrow> Coord list \<Rightarrow> bool option" where
  "kingInDanger_loop b kingColor [] = Some False"
| "kingInDanger_loop b kingColor (idx # rest) = do {
     spot \<leftarrow> Board_get b idx;
     if spaceGetType spot \<noteq> PIECETYPE_KING \<or> spaceGetColor spot \<noteq> kingColor
     then kingInDanger_loop b kingColor rest
     else if attackMapIsAttacked b idx (8 - kingColor) then Some True
     else kingInDanger_loop b kingColor rest
   }"

definition kingInDanger :: "Board \<Rightarrow> Color \<Rightarrow> bool option" where
  "kingInDanger b kingColor = kingInDanger_loop b kingColor (pieceList (current b))"

text \<open>
  The generator's functions push onto the array \<open>out\<close> and mutate the board; each
  returns the board and the list, or \<open>None\<close> when an assertion throws.
\<close>

definition tryPushMove :: "Board \<Rightarrow> Move list \<Rightarrow> Move \<Rightarrow> (Board \<times> Move list) option" where
  "tryPushMove b out m = do {
     let color = spaceGetColor (what m);
     let b1 = Board_save b;
     b2 \<leftarrow> performMove b1 m;
     danger \<leftarrow> kingInDanger b2 color;
     let out' = (if \<not> danger
                 then (if promote m \<noteq> 0 then out @ map (moveToPromotion m) PROMOTIONS
                       else out @ [m])
                 else out);
     Some (Board_restore b2, out')
   }"

text \<open>
  The inner loop of \<open>_findMoves\<close>: \<open>k\<close> counts the steps left, \<open>maxDist - n\<close>.
\<close>

fun findMoves_ray ::
  "Board \<Rightarrow> Space \<Rightarrow> Coord \<Rightarrow> int \<Rightarrow> Coord \<Rightarrow> nat \<Rightarrow> Move list \<Rightarrow> PriorState
     \<Rightarrow> (Board \<times> Move list) option" where
  "findMoves_ray b sp idx step newIdx 0 out pr = Some (b, out)"
| "findMoves_ray b sp idx step newIdx (Suc k) out pr =
     (if newIdx AND 0x88 \<noteq> 0 then Some (b, out)
      else do {
        newSp \<leftarrow> Board_get b newIdx;
        if newSp = SPACE_EMPTY then do {
          (b', out') \<leftarrow> tryPushMove b out (createSimpleMove sp idx newIdx pr);
          findMoves_ray b' sp idx step (newIdx + step) k out' pr }
        else if spaceGetColor newSp = 8 - spaceGetColor sp
        then tryPushMove b out (createSimpleCapture sp idx newIdx newSp newIdx pr)
        else Some (b, out)
      })"

fun findMoves_dirs ::
  "Board \<Rightarrow> Space \<Rightarrow> Coord \<Rightarrow> int list \<Rightarrow> nat \<Rightarrow> Move list \<Rightarrow> PriorState
     \<Rightarrow> (Board \<times> Move list) option" where
  "findMoves_dirs b sp idx [] maxDist out pr = Some (b, out)"
| "findMoves_dirs b sp idx (step # steps) maxDist out pr = do {
     (b', out') \<leftarrow> findMoves_ray b sp idx step (idx + step) maxDist out pr;
     findMoves_dirs b' sp idx steps maxDist out' pr
   }"

definition findMoves ::
  "Board \<Rightarrow> Space \<Rightarrow> Coord \<Rightarrow> int list \<Rightarrow> nat \<Rightarrow> nat \<Rightarrow> nat \<Rightarrow> Move list \<Rightarrow> PriorState
     \<Rightarrow> (Board \<times> Move list) option" where
  "findMoves b sp idx dirs dirsLow dirsHigh maxDist out pr =
     findMoves_dirs b sp idx (take (dirsHigh - dirsLow) (drop dirsLow dirs)) maxDist out pr"

text \<open>
  \<open>_tryCastle\<close>. The first loop reads every square from \<open>min\<close> to \<open>max\<close> but the two
  origins and gives up at the first occupied one; the second puts a king on every
  square of the king's path in a saved layer.
\<close>

fun castle_blocked :: "Board \<Rightarrow> Move \<Rightarrow> Coord list \<Rightarrow> bool option" where
  "castle_blocked b m [] = Some False"
| "castle_blocked b m (idx # rest) =
     (if idx = from' m \<or> idx = castleRookFrom m then castle_blocked b m rest
      else do {
        sp \<leftarrow> Board_get b idx;
        if sp \<noteq> SPACE_EMPTY then Some True else castle_blocked b m rest
      })"

fun place_kings :: "Board \<Rightarrow> Space \<Rightarrow> Coord list \<Rightarrow> Board option" where
  "place_kings b sp [] = Some b"
| "place_kings b sp (idx # rest) = do { b' \<leftarrow> Board_set b idx sp; place_kings b' sp rest }"

definition tryCastle :: "Board \<Rightarrow> Move list \<Rightarrow> Move \<Rightarrow> (Board \<times> Move list) option" where
  "tryCastle b out m = do {
     let color = spaceGetColor (what m);
     let lo = min (min (castleRookFrom m) (castleRookTo m)) (min (from' m) (to' m));
     let hi = max (max (castleRookFrom m) (castleRookTo m)) (max (from' m) (to' m));
     blocked \<leftarrow> castle_blocked b m [lo..hi];
     if blocked then Some (b, out)
     else do {
       let b1 = Board_save b;
       b2 \<leftarrow> Board_set b1 (from' m) SPACE_EMPTY;
       b3 \<leftarrow> Board_set b2 (castleRookFrom m) SPACE_EMPTY;
       b4 \<leftarrow> place_kings b3 (what m) [min (from' m) (to' m)..max (from' m) (to' m)];
       hasDanger \<leftarrow> kingInDanger b4 color;
       let b5 = Board_restore b4;
       if hasDanger then Some (b5, out) else tryPushMove b5 out m
     }
   }"

definition findKingCastles ::
  "Board \<Rightarrow> Space \<Rightarrow> Coord \<Rightarrow> Move list \<Rightarrow> PriorState \<Rightarrow> (Board \<times> Move list) option" where
  "findKingCastles b sp idx out pr =
     (if spaceHasMoved sp then Some (b, out)
      else do {
        let color = spaceGetColor sp;
        let cm = castles (current b);
        let kRank = castleMapGetFile cm color True;
        let qRank = castleMapGetFile cm color False;
        let rank = idx AND 0xf0;
        (b1, out1) \<leftarrow>
          (if kRank AND 8 = 0 then do {
             let kingDest = rank OR 6;
             let rookFrom = rank OR kRank;
             let rookDest = rank OR 5;
             rook \<leftarrow> Board_get b rookFrom;
             tryCastle b out (createCastle sp idx kingDest rook rookFrom rookDest pr) }
           else Some (b, out));
        (if qRank AND 8 = 0 then do {
           let kingDest = rank OR 2;
           let rookFrom = rank OR qRank;
           let rookDest = rank OR 3;
           rook \<leftarrow> Board_get b1 rookFrom;
           tryCastle b1 out1 (createCastle sp idx kingDest rook rookFrom rookDest pr) }
         else Some (b1, out1))
      })"

text \<open>The capture loop of \<open>_pawnMoves\<close> over \<open>PAWN_CAPS\<close>.\<close>

fun pawnCaptures ::
  "Board \<Rightarrow> Space \<Rightarrow> Coord \<Rightarrow> Coord \<Rightarrow> PieceType \<Rightarrow> Coord \<Rightarrow> int list \<Rightarrow> Move list \<Rightarrow> PriorState
     \<Rightarrow> (Board \<times> Move list) option" where
  "pawnCaptures b sp idx oneUp prom epT [] out pr = Some (b, out)"
| "pawnCaptures b sp idx oneUp prom epT (step # steps) out pr =
     (let coord = oneUp + step in
      if coord AND 0x88 \<noteq> 0 then pawnCaptures b sp idx oneUp prom epT steps out pr
      else do {
        spot \<leftarrow> Board_get b coord;
        (b', out') \<leftarrow>
          (if coord = epT then do {
             let epCoord = idx + step;
             epSpot \<leftarrow> Board_get b epCoord;
             tryPushMove b out (createFullMove sp idx coord epSpot epCoord 0 0 0 prom 0 pr) }
           else if spot \<noteq> SPACE_EMPTY \<and> spaceGetColor spot = 8 - spaceGetColor sp
           then tryPushMove b out (createFullMove sp idx coord spot coord 0 0 0 prom 0 pr)
           else Some (b, out));
        pawnCaptures b' sp idx oneUp prom epT steps out' pr
      })"

definition pawnMoves ::
  "Board \<Rightarrow> Space \<Rightarrow> Coord \<Rightarrow> Move list \<Rightarrow> PriorState \<Rightarrow> (Board \<times> Move list) option" where
  "pawnMoves b sp idx out pr =
     (let color = spaceGetColor sp;
          dir = (if color = COLOR_WHITE then 1 else -1);
          oneUp = idx + 16 * dir;
          twoUp = idx + 32 * dir
      in if oneUp AND 0x88 \<noteq> 0 then Some (b, out)
         else do {
           let prom = (if twoUp AND 0x88 \<noteq> 0 then PIECETYPE_QUEEN else 0);
           oneSp \<leftarrow> Board_get b oneUp;
           (b2, out2) \<leftarrow>
             (if oneSp = SPACE_EMPTY then do {
                (b1, out1) \<leftarrow> tryPushMove b out (createFullMove sp idx oneUp 0 0 0 0 0 prom 0 pr);
                if \<not> spaceHasMoved sp \<and> twoUp AND 0x88 = 0 then do {
                  twoSp \<leftarrow> Board_get b1 twoUp;
                  if twoSp = SPACE_EMPTY
                  then tryPushMove b1 out1 (createFullMove sp idx twoUp 0 0 0 0 0 0 oneUp pr)
                  else Some (b1, out1) }
                else Some (b1, out1) }
              else Some (b, out));
           pawnCaptures b2 sp idx oneUp prom (ep (current b2)) PAWN_CAPS out2 pr
         })"

definition listValidMoves :: "Board \<Rightarrow> Coord \<Rightarrow> Move list \<Rightarrow> (Board \<times> Move list) option" where
  "listValidMoves b idx out = do {
     sp \<leftarrow> Board_get b idx;
     let pr = getPriorState b;
     if sp = SPACE_EMPTY then None
     else do {
       let b1 = Board_save b;
       b2 \<leftarrow> Board_set b1 idx SPACE_EMPTY;
       (b3, out') \<leftarrow>
         (if spaceGetType sp = PIECETYPE_BISHOP then findMoves b2 sp idx DIRS 4 8 8 out pr
          else if spaceGetType sp = PIECETYPE_ROOK then findMoves b2 sp idx DIRS 0 4 8 out pr
          else if spaceGetType sp = PIECETYPE_QUEEN then findMoves b2 sp idx DIRS 0 8 8 out pr
          else if spaceGetType sp = PIECETYPE_KNIGHT then findMoves b2 sp idx KNIGHT 0 8 1 out pr
          else if spaceGetType sp = PIECETYPE_KING then do {
            (b', out1) \<leftarrow> findMoves b2 sp idx DIRS 0 8 1 out pr;
            findKingCastles b' sp idx out1 pr }
          else if spaceGetType sp = PIECETYPE_PAWN then pawnMoves b2 sp idx out pr
          else Some (b2, out));
       Some (Board_restore b3, out')
     }
   }"

fun listAll_loop :: "Board \<Rightarrow> Color \<Rightarrow> Coord list \<Rightarrow> Move list \<Rightarrow> (Board \<times> Move list) option" where
  "listAll_loop b color [] out = Some (b, out)"
| "listAll_loop b color (idx # rest) out = do {
     sp \<leftarrow> Board_get b idx;
     if spaceGetColor sp = color then do {
       (b', out') \<leftarrow> listValidMoves b idx out;
       listAll_loop b' color rest out' }
     else listAll_loop b color rest out
   }"

text \<open>
  \<open>listAllValidMoves\<close>, with arrays as values: the list returned and the list cached.
  (Whether the two are one array is the subject of the last section.)
\<close>

definition listAllValidMoves :: "Board \<Rightarrow> Color \<Rightarrow> (Board \<times> Move list) option" where
  "listAllValidMoves b color =
     (case moveCache (current b) color of
        Some cached \<Rightarrow> Some (b, cached)
      | None \<Rightarrow> do {
          (b', out) \<leftarrow> listAll_loop b color (pieceList (current b)) [];
          Some (set_current b' ((current b')\<lparr>moveCache := (moveCache (current b'))(color := Some out)\<rparr>),
                out)
        })"

section \<open>Perft (logic/perft.ts)\<close>

text \<open>
  The loop \<open>for (const move of moves)\<close> threads the board and the running sum
  through the moves; \<open>perft_moves\<close> is that loop for a given function of the recursive
  call.
\<close>

fun perft_moves ::
  "(Board \<Rightarrow> (int \<times> Board) option) \<Rightarrow> Move list \<Rightarrow> int \<Rightarrow> Board \<Rightarrow> (int \<times> Board) option" where
  "perft_moves rec [] num b = Some (num, b)"
| "perft_moves rec (m # ms) num b = do {
     let b1 = Board_save b;
     b2 \<leftarrow> performMove b1 m;
     (deep, b3) \<leftarrow> rec b2;
     perft_moves rec ms (num + deep) (Board_restore b3)
   }"

lemma perft_moves_cong [fundef_cong]:
  "ms = ms' \<Longrightarrow> num = num' \<Longrightarrow> b = b' \<Longrightarrow> (\<And>x. rec x = rec' x)
     \<Longrightarrow> perft_moves rec ms num b = perft_moves rec' ms' num' b'"
  by (subgoal_tac "rec = rec'") auto

function perft :: "Board \<Rightarrow> int \<Rightarrow> (int \<times> Board) option" where
  "perft b depth = do {
     (b1, ms) \<leftarrow> listAllValidMoves b (turn (current b));
     if depth \<le> 1 then Some (int (length ms), b1)
     else perft_moves (\<lambda>b'. perft b' (depth - 1)) ms 0 b1
   }"
  by pat_completeness auto
termination
  by (relation "measure (\<lambda>(b, depth). nat depth)") auto

declare perft.simps [simp del]

section \<open>Standard algebraic notation\<close>

subsection \<open>Rendering the departure (logic/move-formats/move-to-san.ts)\<close>

text \<open>
  \<open>_getDeparture\<close>. \<open>full[0]\<close> and \<open>full[1]\<close> are the first and second character of
  the algebraic name of the origin.
\<close>

definition getDeparture :: "Move list \<Rightarrow> Move \<Rightarrow> string" where
  "getDeparture ms m =
     (let full = coordToAN (from' m) in
      if spaceGetType (what m) = PIECETYPE_PAWN \<and> capture m \<noteq> 0 then [full ! 0]
      else
        (let similar = filter (\<lambda>other. from' other \<noteq> from' m \<and> to' other = to' m
                                \<and> spaceGetType (what other) = spaceGetType (what m)) ms
         in if length similar = 0 then []
            else (case parseCoord (from' m) of (file, rank) \<Rightarrow>
              if list_all (\<lambda>other. fst (parseCoord (from' other)) \<noteq> file) similar then [full ! 0]
              else if list_all (\<lambda>other. snd (parseCoord (from' other)) \<noteq> rank) similar then [full ! 1]
              else full)))"

subsection \<open>Selecting a move (logic/find-move-by-san.ts)\<close>

datatype chess_error = ChessBadMove string | ChessNeedsPromotion

text \<open>
  \<open>_selectMoveByInvariant\<close>: the loop keeps the first match in \<open>found\<close> and throws at
  the second. The constructor of \<open>ChessBadMove\<close> prefixes its message with
  \<open>Bad move: \<close>; the model keeps the message passed to it.
\<close>

fun selectMove_loop ::
  "Move list \<Rightarrow> string \<Rightarrow> (Move \<Rightarrow> bool) \<Rightarrow> Move option \<Rightarrow> chess_error + Move" where
  "selectMove_loop [] san fn found =
     (case found of
        Some f \<Rightarrow> Inr f
      | None \<Rightarrow> Inl (ChessBadMove (san @ '' is not a valid move'')))"
| "selectMove_loop (m # rest) san fn found =
     (if fn m then
        (case found of
           Some f \<Rightarrow>
             (if promote f \<noteq> 0 \<and> promote m \<noteq> 0 then Inl ChessNeedsPromotion
              else Inl (ChessBadMove (san @ '' is ambiguous'')))
         | None \<Rightarrow> selectMove_loop rest san fn (Some m))
      else selectMove_loop rest san fn found)"

definition selectMoveByInvariant ::
  "Move list \<Rightarrow> string \<Rightarrow> (Move \<Rightarrow> bool) \<Rightarrow> chess_error + Move" where
  "selectMoveByInvariant ms san fn = selectMove_loop ms san fn None"

text \<open>
  The predicate \<open>findMoveBySAN\<close> hands to the selection for a SAN string that
  \<open>MOVE_RE\<close> matches, from the six groups of the match: piece letter, departure file,
  departure rank, capture mark, destination, promotion letter (\<open>None\<close> when the group
  did not take part). The regular expression itself is not modelled.
\<close>

record san_groups =
  g_piece :: string
  g_file :: string
  g_rank :: string
  g_capture :: string
  g_dest :: string
  g_promo :: "string option"

definition PIECETYPE_MAP :: "string \<Rightarrow> PieceType option" where
  "PIECETYPE_MAP k =
     (if k = [] then Some PIECETYPE_PAWN
      else if k = ''B'' then Some PIECETYPE_BISHOP
      else if k = ''N'' then Some PIECETYPE_KNIGHT
      else if k = ''R'' then Some PIECETYPE_ROOK
      else if k = ''Q'' then Some PIECETYPE_QUEEN
      else if k = ''K'' then Some PIECETYPE_KING
      else None)"

text \<open>
  \<open>coordFromAN\<close> (\<open>models/coord.ts\<close>): the assertion \<open>AN_RE.test(an)\<close>, then the two
  character codes of the lower-cased name. \<open>None\<close> is the assertion's throw.
\<close>

definition lowerCode :: "char \<Rightarrow> int" where
  "lowerCode c = (let k = of_char c in if 65 \<le> k \<and> k \<le> 90 then k + 32 else k)"

definition coordFromAN :: "string \<Rightarrow> Coord option" where
  "coordFromAN an =
     (case an of
        [f, r] \<Rightarrow>
          (if 97 \<le> lowerCode f \<and> lowerCode f \<le> 104 \<and> 49 \<le> (of_char r :: int) \<and> (of_char r :: int) \<le> 56
           then Some (buildCoord (lowerCode f - 97) (of_char r - 49))
           else None)
      | _ \<Rightarrow> None)"

definition sanPredicate :: "san_groups \<Rightarrow> Move \<Rightarrow> bool" where
  "sanPredicate g m =
     (coordFromAN (g_dest g) = Some (to' m) \<and>
      Some (spaceGetType (what m)) = PIECETYPE_MAP (g_piece g) \<and>
      (if g_file g \<noteq> [] then from' m AND 7 = of_char (g_file g ! 0) - 97 else True) \<and>
      (if g_rank g \<noteq> [] then drop_bit 4 (from' m mod 2 ^ 32) AND 7 = of_char (g_rank g ! 0) - 49
       else True) \<and>
      (if g_capture g \<noteq> [] then capture m \<noteq> 0 else capture m = 0) \<and>
      (case g_promo g of Some p \<Rightarrow> Some (promote m) = PIECETYPE_MAP p | None \<Rightarrow> True))"

section \<open>The game facade (ChessGame)\<close>

datatype winner = White | Black | Draw

record GameMove =
  num :: int
  side :: string
  from_an :: string
  to_an :: string
  san :: string

record GameMoveInternal = GameMove +
  move :: Move

record ChessGame =
  game_board :: Board
  game_moves :: "GameMoveInternal list"
  gameWinner :: "winner option"
  drawReason :: "string option"
  tags :: "string \<rightharpoonup> string"

text \<open>
  \<open>undoMove\<close>: \<open>this.#moves.pop()\<close> takes the last record off the history, or gives
  \<open>undefined\<close> when the history is empty.
\<close>

definition undoMove :: "ChessGame \<Rightarrow> ChessGame option" where
  "undoMove g =
     (case rev (game_moves g) of
        [] \<Rightarrow> Some g
      | r # earlier \<Rightarrow> do {
          b \<leftarrow> revertMove (game_board g) (move r);
          Some (g\<lparr>game_board := b, game_moves := rev earlier, gameWinner := None\<rparr>)
        })"

section \<open>The outcome classifier (logic/move-results.ts)\<close>

text \<open>
  \<open>_nextState\<close>. \<open>boardLacksMaterial\<close> (\<open>logic/board-lacks-material.ts\<close>) is not among
  the sources; the classifier takes it as a parameter.
\<close>

definition nextState ::
  "(Board \<Rightarrow> bool) \<Rightarrow> Board \<Rightarrow> bool \<Rightarrow> bool \<Rightarrow> jsnum \<Rightarrow> GameStatus" where
  "nextState boardLacksMaterial b enemyInCheck enemyCanMove timesMoveSeen =
     (let priorStatus = status (current b) in
      if \<not> enemyCanMove then
        (if enemyInCheck then GAMESTATUS_CHECKMATE else GAMESTATUS_DRAW_STALEMATE)
      else if 100 \<le> clock (current b) then GAMESTATUS_DRAW_FIFTYMOVES
      else if js_ge timesMoveSeen 3 then GAMESTATUS_DRAW_REPETITION
      else if boardLacksMaterial b then GAMESTATUS_DRAW_NOMATERIAL
      else priorStatus)"

text \<open>
  \<open>checkMoveResults\<close>, called after the move was applied: it asks whether the enemy
  king is attacked and whether the enemy has a move, counts the position in \<open>seen\<close> and
  classifies. The board it leaves is returned with the results.
\<close>

record MoveResults =
  enemyInCheck :: bool
  enemyCanMove :: bool
  newGameStatus :: GameStatus

definition checkMoveResults ::
  "(Board \<Rightarrow> bool) \<Rightarrow> Board \<Rightarrow> Color \<Rightarrow> (MoveResults \<times> Board) option" where
  "checkMoveResults boardLacksMaterial b moveColor = do {
     let enemy = 8 - moveColor;
     inCheck \<leftarrow> kingInDanger b enemy;
     (b1, ms) \<leftarrow> listAllValidMoves b enemy;
     let canMove = (0 < length ms);
     let (timesMoveSeen, b2) = putBoardHash b1 (hashBoard b1);
     Some (\<lparr>enemyInCheck = inCheck, enemyCanMove = canMove,
            newGameStatus = nextState boardLacksMaterial b2 inCheck canMove timesMoveSeen\<rparr>, b2)
   }"

subsection \<open>How often a position was seen\<close>

text \<open>
  The count that \<open>seen\<close> holds for a hash before the position is counted again: the
  entry of the nearest layer that has one, from the current layer downwards, read off
  the stack without the walk of \<open>putBoardHash\<close>.
\<close>

definition timesSeenBefore :: "Board \<Rightarrow> hash \<Rightarrow> jsnum option" where
  "timesSeenBefore b h =
     (case filter (\<lambda>i. seen (layers b ! i) h \<noteq> None) (rev [0..<Suc (layerIdx b)]) of
        [] \<Rightarrow> None
      | i # rest \<Rightarrow> seen (layers b ! i) h)"

subsection \<open>What a departure text identifies\<close>

text \<open>
  The words of the claim about \<open>_getDeparture\<close>, for comparison with the code. A
  departure text fits a move when it is empty, the file letter of the move's origin, its
  rank digit or its full name (this is how the SAN parser reads the text); it
  identifies the move \<open>m\<close> in a list when every move of the list with the piece type
  and destination of \<open>m\<close> that it fits leaves from the origin of \<open>m\<close>. The candidate
  texts of \<open>m\<close> are the four the function can return. A twin of \<open>m\<close> is a move of
  the same piece type to the same destination from another origin.
\<close>

definition dep_matches :: "string \<Rightarrow> Move \<Rightarrow> bool" where
  "dep_matches d other =
     (d = [] \<or> d = [coordToAN (from' other) ! 0] \<or> d = [coordToAN (from' other) ! 1]
      \<or> d = coordToAN (from' other))"

definition identifies :: "Move list \<Rightarrow> Move \<Rightarrow> string \<Rightarrow> bool" where
  "identifies ms m d =
     (\<forall>other\<in>set ms. to' other = to' m \<and> spaceGetType (what other) = spaceGetType (what m)
         \<and> dep_matches d other \<longrightarrow> from' other = from' m)"

definition departures :: "Move \<Rightarrow> string list" where
  "departures m =
     [[], [coordToAN (from' m) ! 0], [coordToAN (from' m) ! 1], coordToAN (from' m)]"

definition twin :: "Move \<Rightarrow> Move \<Rightarrow> bool" where
  "twin m other = (from' other \<noteq> from' m \<and> to' other = to' m
      \<and> spaceGetType (what other) = spaceGetType (what m))"

section \<open>Example positions and moves\<close>

text \<open>A white knight's move to f3 from a given square.\<close>

definition knight_to_f3 :: "Coord \<Rightarrow> Move" where
  "knight_to_f3 fr = createSimpleMove 3 fr 0x25
     \<lparr>clock = 0, moveNum = 1, ep = 0x88, status = GAMESTATUS_ACTIVE, castles = 0x8888\<rparr>"

section \<open>What the generator emits\<close>

text \<open>
  The notions in which the generator is reasoned about. A board is well formed when its
  index points into its stack. \<open>frame b b'\<close>: \<open>b'\<close> has the index of \<open>b\<close> and the layers
  of \<open>b\<close> up to and including the current one (what a function that saves and restores
  leaves). \<open>above b b1\<close>: \<open>b1\<close> is one layer above \<open>b\<close> and has the layers of \<open>b\<close> below
  (what \<open>save\<close> gives). \<open>same_core\<close>: two layers agree on board, counters and piece
  list, the fields the generator reads.
\<close>

definition wfb :: "Board \<Rightarrow> bool" where
  "wfb b = (layerIdx b < length (layers b))"

definition frame :: "Board \<Rightarrow> Board \<Rightarrow> bool" where
  "frame b b' = (layerIdx b' = layerIdx b \<and> layerIdx b < length (layers b)
     \<and> take (Suc (layerIdx b)) (layers b') = take (Suc (layerIdx b)) (layers b))"

definition above :: "Board \<Rightarrow> Board \<Rightarrow> bool" where
  "above b b1 = (layerIdx b1 = Suc (layerIdx b) \<and> Suc (layerIdx b) < length (layers b1)
     \<and> take (Suc (layerIdx b)) (layers b1) = take (Suc (layerIdx b)) (layers b))"

definition same_core :: "Layer \<Rightarrow> Layer \<Rightarrow> bool" where
  "same_core L L' = (board L = board L' \<and> attacks L = attacks L' \<and> pieceList L = pieceList L')"

text \<open>
  What \<open>kingInDanger\<close> computes on a layer, and the layer that the \<open>set\<close> calls of
  \<open>performMove\<close> leave; a move whose squares pass the assertion of \<open>set\<close>; and the moves
  that \<open>_tryPushMove\<close> appends for a candidate.
\<close>

definition danger :: "Layer \<Rightarrow> Color \<Rightarrow> bool" where
  "danger L c = (\<exists>idx\<in>set (pieceList L).
      spaceGetType (board L ! nat idx) = PIECETYPE_KING \<and> spaceGetColor (board L ! nat idx) = c
      \<and> 0 < attacks L ! nat (2 * idx + (if 8 - c = COLOR_WHITE then 0 else 1)))"

definition performMove_sets :: "Layer \<Rightarrow> Move \<Rightarrow> Layer" where
  "performMove_sets L m =
     (let L1 = (if capture m \<noteq> 0 then Layer_set L (captureCoord m) SPACE_EMPTY else L);
          L2 = Layer_set L1 (from' m) SPACE_EMPTY;
          L3 = Layer_set L2 (to' m) (what m OR 16);
          L4 = (if castleRook m \<noteq> 0
                then Layer_set (Layer_set L3 (castleRookFrom m) SPACE_EMPTY) (castleRookTo m)
                       (castleRook m OR 16)
                else L3)
      in if promote m \<noteq> 0
         then Layer_set L4 (to' m) (encodePieceSpace (promote m) (spaceGetColor (what m)) True)
         else L4)"

definition move_squares_ok :: "Move \<Rightarrow> bool" where
  "move_squares_ok m = (in_array (from' m) \<and> in_array (to' m)
      \<and> (capture m \<noteq> 0 \<longrightarrow> in_array (captureCoord m))
      \<and> (castleRook m \<noteq> 0 \<longrightarrow> in_array (castleRookFrom m) \<and> in_array (castleRookTo m)))"

definition push_result :: "Layer \<Rightarrow> Move \<Rightarrow> Move list" where
  "push_result L m =
     (if danger (performMove_sets L m) (spaceGetColor (what m)) then []
      else if promote m \<noteq> 0 then map (moveToPromotion m) PROMOTIONS else [m])"

text \<open>
  The layer on which \<open>_tryCastle\<close> calls \<open>kingInDanger\<close>, the squares its first loop
  visits, and its two tests together with the assertions of \<open>set\<close> on the king's path.
\<close>

definition castle_probe :: "Layer \<Rightarrow> Move \<Rightarrow> Layer" where
  "castle_probe L m =
     fold (\<lambda>idx L'. Layer_set L' idx (what m)) [min (from' m) (to' m)..max (from' m) (to' m)]
       (Layer_set (Layer_set L (from' m) SPACE_EMPTY) (castleRookFrom m) SPACE_EMPTY)"

definition castle_span :: "Move \<Rightarrow> Coord list" where
  "castle_span m =
     [min (min (castleRookFrom m) (castleRookTo m)) (min (from' m) (to' m))..
      max (max (castleRookFrom m) (castleRookTo m)) (max (from' m) (to' m))]"

definition castle_checked :: "Layer \<Rightarrow> Move \<Rightarrow> bool" where
  "castle_checked L m =
     ((\<forall>idx\<in>set (castle_span m). idx \<noteq> from' m \<and> idx \<noteq> castleRookFrom m
          \<longrightarrow> board L ! nat idx = SPACE_EMPTY)
      \<and> (\<forall>idx\<in>set [min (from' m) (to' m)..max (from' m) (to' m)]. in_array idx)
      \<and> \<not> danger (castle_probe L m) (spaceGetColor (what m)))"

text \<open>
  A candidate of the piece \<open>sp\<close> on \<open>idx\<close>: a move of that piece from that square, with
  no promotion or the queen's, that has passed \<open>_tryCastle\<close>'s tests if it has a
  castling rook. A move is emitted on a layer when it is among the moves appended for
  a candidate with admissible squares; \<open>gen_ok\<close> is the invariant of the generator's
  functions, and \<open>piece_emitted\<close> reads it on the position itself, where the generator
  works on the layer with the piece lifted off its square.
\<close>

definition cand :: "Layer \<Rightarrow> Space \<Rightarrow> Coord \<Rightarrow> Move \<Rightarrow> bool" where
  "cand L sp idx m = (what m = sp \<and> from' m = idx
     \<and> (promote m = 0 \<or> promote m = PIECETYPE_QUEEN)
     \<and> (castleRook m \<noteq> 0 \<longrightarrow> spaceGetType sp = PIECETYPE_KING \<and> castle_checked L m))"

definition emitted :: "Layer \<Rightarrow> Space \<Rightarrow> Coord \<Rightarrow> Move \<Rightarrow> bool" where
  "emitted L sp idx m =
     (\<exists>m0. cand L sp idx m0 \<and> move_squares_ok m0 \<and> m \<in> set (push_result L m0))"

definition gen_ok :: "Board \<Rightarrow> Space \<Rightarrow> Coord \<Rightarrow> Move list \<Rightarrow> Board \<Rightarrow> Move list \<Rightarrow> bool" where
  "gen_ok b sp idx out b' out' =
     (frame b b' \<and> (\<exists>new. out' = out @ new \<and> (\<forall>m\<in>set new. emitted (current b) sp idx m)))"

definition piece_emitted :: "Layer \<Rightarrow> Coord \<Rightarrow> Move \<Rightarrow> bool" where
  "piece_emitted L idx m =
     (in_array idx \<and> board L ! nat idx \<noteq> SPACE_EMPTY
      \<and> emitted (Layer_set L idx SPACE_EMPTY) (board L ! nat idx) idx m)"

text \<open>
  The invariant of a layer that \<open>set\<close> maintains: the board has its 128 bytes, and the
  piece list names, once each, the occupied squares.
\<close>

definition wf_layer :: "Layer \<Rightarrow> bool" where
  "wf_layer L = (length (board L) = 128 \<and> (\<forall>x\<in>set (board L). 0 \<le> x \<and> x < 256)
     \<and> distinct (pieceList L)
     \<and> set (pieceList L) = {i. in_array i \<and> board L ! nat i \<noteq> SPACE_EMPTY})"

text \<open>The attack counters of a layer are those of its occupancy.\<close>

definition exact :: "Layer \<Rightarrow> bool" where
  "exact L = (attacks L = attack_map (board L))"

text \<open>
  The bytes \<open>performMove\<close> leaves on the board: \<open>moved_board\<close> before the promotion
  write, \<open>perform_board\<close> after it.
\<close>

definition moved_board :: "int list \<Rightarrow> Move \<Rightarrow> int list" where
  "moved_board bd m =
     (let b1 = (if capture m \<noteq> 0 then bd[nat (captureCoord m) := 0] else bd);
          b3 = b1[nat (from' m) := 0, nat (to' m) := (what m OR 16) mod 256]
      in if castleRook m \<noteq> 0
         then b3[nat (castleRookFrom m) := 0, nat (castleRookTo m) := (castleRook m OR 16) mod 256]
         else b3)"

definition perform_board :: "int list \<Rightarrow> Move \<Rightarrow> int list" where
  "perform_board bd m =
     (if promote m \<noteq> 0
      then (moved_board bd m)
             [nat (to' m) := encodePieceSpace (promote m) (spaceGetColor (what m)) True mod 256]
      else moved_board bd m)"

text \<open>
  The color whose counters \<open>attackMapIsAttacked(b, idx, 8 - c)\<close> reads, and the test of
  \<open>kingInDanger\<close> as a property of the bytes alone: some king of color \<open>c\<close> stands on a
  square that a piece of the other color attacks.
\<close>

definition enemy_of :: "Color \<Rightarrow> Color" where
  "enemy_of c = (if 8 - c = COLOR_WHITE then COLOR_WHITE else COLOR_BLACK)"

definition board_danger :: "int list \<Rightarrow> Color \<Rightarrow> bool" where
  "board_danger bd c = (\<exists>idx. in_array idx \<and> spaceGetType (bd ! nat idx) = PIECETYPE_KING
      \<and> spaceGetColor (bd ! nat idx) = c \<and> 0 < attack_count bd idx (enemy_of c))"

text \<open>
  A position set up square by square, as \<open>buildStandardBoard\<close> does with \<open>board.set\<close>:
  the white king on a1, a black rook on b8 and the black king on h8, all three marked
  as moved; and the king's step to a2.
\<close>

definition kr_layer :: Layer where
  "kr_layer = Layer_set (Layer_set (Layer_set newLayer 0 22) 113 28) 119 30"

definition kr_board :: Board where
  "kr_board = \<lparr>layerIdx = 0, layers = [kr_layer]\<rparr>"

definition king_a1_a2 :: Move where
  "king_a1_a2 = createSimpleMove 22 0 16 (getPriorState kr_board)"

text \<open>
  A stack of two layers whose lower layer has seen a position twice and whose current
  layer has not seen it; and the position's hash.
\<close>

definition seen_hash :: hash where
  "seen_hash = (replicate 128 0, COLOR_WHITE, 0, 0x88)"

definition seen_below :: Board where
  "seen_below = \<lparr>layerIdx = 1, layers = [newLayer\<lparr>seen := [seen_hash \<mapsto> Num 2]\<rparr>, newLayer]\<rparr>"

text \<open>The position of the rook example after \<open>seen\<close> has counted it twice.\<close>

definition kr_seen_twice :: Board where
  "kr_seen_twice = \<lparr>layerIdx = 0, layers = [kr_layer\<lparr>seen := [hashBoard kr_board \<mapsto> Num 2]\<rparr>]\<rparr>"

text \<open>
  A Chess960 position: the white king on f1 and a white rook on h1, neither moved, the
  white kingside right on the h-file, and the black king on e8. The kingside castle
  takes the king to g1 and the rook to f1, the king's origin. \<open>c960_game b\<close> is a game
  on the board \<open>b\<close> whose history is that castle.
\<close>

definition c960_layer :: Layer where
  "c960_layer = Layer_set (Layer_set (Layer_set (newLayer\<lparr>castles := 0x8887\<rparr>) 5 6) 7 4) 116 30"

definition c960_board :: Board where
  "c960_board = \<lparr>layerIdx = 0, layers = [c960_layer]\<rparr>"

definition c960_castle :: Move where
  "c960_castle = createCastle 6 5 6 4 7 5 (getPriorState c960_board)"

definition c960_game :: "Board \<Rightarrow> ChessGame" where
  "c960_game b = \<lparr>game_board = b,
     game_moves = [\<lparr>num = 1, side = ''white'', from_an = ''f1'', to_an = ''g1'', san = ''O-O'',
                    move = c960_castle\<rparr>],
     gameWinner = None, drawReason = None, tags = Map.empty\<rparr>"

text \<open>
  Two white pawns, on d7 and on f7, that can each capture a black rook on e8 and
  promote; the eight moves the generator lists for them; and the groups of the SAN text
  \<open>xe8=Q\<close>.
\<close>

definition pawn_takes_e8 :: "Coord \<Rightarrow> Move" where
  "pawn_takes_e8 fr = createFullMove 17 fr 0x74 28 0x74 0 0 0 PIECETYPE_QUEEN 0
     \<lparr>clock = 0, moveNum = 30, ep = 0x88, status = GAMESTATUS_ACTIVE, castles = 0x8888\<rparr>"

definition two_pawn_promotions :: "Move list" where
  "two_pawn_promotions =
     map (moveToPromotion (pawn_takes_e8 0x63)) PROMOTIONS @
     map (moveToPromotion (pawn_takes_e8 0x65)) PROMOTIONS"

definition takes_e8_queen :: san_groups where
  "takes_e8_queen = \<lparr>g_piece = [], g_file = [], g_rank = [], g_capture = ''x'',
     g_dest = ''e8'', g_promo = Some ''Q''\<rparr>"

text \<open>
  The occupancy in which \<open>_tryCastle\<close> asks \<open>kingInDanger\<close>: king and rook lifted off
  their origins, and the king's byte on every square of the king's path.
\<close>

definition castle_probe_board :: "int list \<Rightarrow> Move \<Rightarrow> int list" where
  "castle_probe_board bd m =
     fold (\<lambda>idx bd'. bd'[nat idx := what m mod 256])
       [min (from' m) (to' m)..max (from' m) (to' m)]
       (bd[nat (from' m) := 0, nat (castleRookFrom m) := 0])"

text \<open>
  \<open>listAllValidMoves\<close> with its arrays as objects. The \<open>Move[]\<close> arrays live in a store,
  \<open>ab_arrays\<close> from addresses to contents, \<open>ab_next\<close> is the next free address, and
  \<open>ab_cache\<close> is \<open>b.current.moveCache\<close> holding addresses (\<open>None\<close> is \<open>null\<close>). On a
  cached list the function returns \<open>cached.slice()\<close>, a new array with the same contents;
  otherwise it fills a new array \<open>out\<close>, stores \<open>out\<close> in the cache and returns \<open>out\<close>.
\<close>

type_synonym addr = nat

record ArrayBoard =
  ab_board :: Board
  ab_arrays :: "addr \<Rightarrow> Move list"
  ab_next :: addr
  ab_cache :: "Color \<Rightarrow> addr option"

definition listAllValidMoves_arr :: "ArrayBoard \<Rightarrow> Color \<Rightarrow> (ArrayBoard \<times> addr) option" where
  "listAllValidMoves_arr s color =
     (case ab_cache s color of
        Some cached \<Rightarrow>
          Some (s\<lparr>ab_arrays := (ab_arrays s)(ab_next s := ab_arrays s cached),
                  ab_next := ab_next s + 1\<rparr>, ab_next s)
      | None \<Rightarrow> do {
          (b', out) \<leftarrow> listAll_loop (ab_board s) color (pieceList (current (ab_board s))) [];
          Some (s\<lparr>ab_board := b', ab_arrays := (ab_arrays s)(ab_next s := out),
                  ab_next := ab_next s + 1,
                  ab_cache := (ab_cache s)(color := Some (ab_next s))\<rparr>, ab_next s)
        })"

text \<open>The rook position with no array allocated and nothing cached.\<close>

definition kr_arrays :: ArrayBoard where
  "kr_arrays = \<lparr>ab_board = kr_board, ab_arrays = (\<lambda>a. []), ab_next = 0, ab_cache = (\<lambda>c. None)\<rparr>"

section \<open>Properties\<close>

subsection \<open>Squares and their names\<close>

lemma and7: "(x::int) AND 7 = x mod 8"
  using take_bit_eq_mask[of 3 x] by (simp add: take_bit_eq_mod mask_eq_exp_minus_1)

lemma and136_bits: "((x::int) AND 136 = 0) = (\<not> bit x 3 \<and> \<not> bit x 7)"
proof -
  have "(136::int) = 2 ^ 7 OR 2 ^ 3" by simp
  then have "x AND 136 = (x AND 2 ^ 7) OR (x AND 2 ^ 3)"
    by (simp only: bit.conj_disj_distrib)
  then show ?thesis
    by (simp only: or_eq_0_iff and_exp_eq_0_iff_not_bit) blast
qed

lemma and136: "((x::int) AND 136 = 0) = (even (x div 8) \<and> even (x div 128))"
  unfolding and136_bits by (simp add: bit_iff_odd)


lemma mod16_split:
  fixes x :: int
  shows "\<exists>q r. x mod 16 = 8 * q + r \<and> (q = 0 \<or> q = 1) \<and> 0 \<le> r \<and> r < 8
    \<and> (even (x div 8) \<longleftrightarrow> q = 0) \<and> r = x mod 8"
proof (rule exI[of _ "x div 8 mod 2"], rule exI[of _ "x mod 8"], intro conjI)
  show "x mod 16 = 8 * (x div 8 mod 2) + x mod 8"
    using zmod_zmult2_eq[of 2 x 8] by simp
  show "x div 8 mod 2 = 0 \<or> x div 8 mod 2 = 1" by presburger
  show "even (x div 8) \<longleftrightarrow> x div 8 mod 2 = 0" by (simp add: even_iff_mod_2_eq_zero)
qed simp_all

lemma even_div8: "even ((x::int) div 8) \<longleftrightarrow> x mod 16 < 8"
proof -
  obtain q r where "x mod 16 = 8 * q + r" "q = 0 \<or> q = 1" "0 \<le> r" "r < 8"
    "even (x div 8) \<longleftrightarrow> q = 0"
    using mod16_split[of x] by blast
  then show ?thesis by auto
qed

lemma in_array_alt: "in_array idx \<longleftrightarrow> (0 \<le> idx \<and> idx < 128 \<and> idx mod 16 < 8)"
  unfolding in_array_def and136 even_div8 by auto


lemma parseCoord_in_array:
  "in_array idx \<Longrightarrow> parseCoord idx = (idx mod 8, idx div 16)"
  by (simp add: parseCoord_def and7 in_array_alt drop_bit_eq_div)

lemma in_array_decomp: "in_array idx \<Longrightarrow> idx = 16 * (idx div 16) + idx mod 8"
proof -
  assume "in_array idx"
  then have a: "idx mod 16 < 8" by (simp add: in_array_alt)
  obtain q r where "idx mod 16 = 8 * q + r" "q = 0 \<or> q = 1" "0 \<le> r" "r < 8" "r = idx mod 8"
    using mod16_split[of idx] by blast
  with a have "idx mod 16 = idx mod 8" by auto
  then show ?thesis using mult_div_mod_eq[of 16 idx] by simp
qed

lemma in_array_eqI:
  "in_array i \<Longrightarrow> in_array j \<Longrightarrow> i mod 8 = j mod 8 \<Longrightarrow> i div 16 = j div 16 \<Longrightarrow> i = j"
  using in_array_decomp[of i] in_array_decomp[of j] by simp

lemma file_rank_bounds:
  "in_array idx \<Longrightarrow> 0 \<le> idx mod 8 \<and> idx mod 8 < 8 \<and> 0 \<le> idx div 16 \<and> idx div 16 < 8"
proof -
  assume "in_array idx"
  then have a: "0 \<le> idx" "idx < 128" by (simp_all add: in_array_alt)
  have "0 \<le> idx div 16" using a by simp
  moreover have "idx div 16 < 8" using a by arith
  ultimately show ?thesis by simp
qed

lemma coordToAN_in_array:
  "in_array idx \<Longrightarrow> coordToAN idx = [FILES ! nat (idx mod 8), RANKS ! nat (idx div 16)]"
  using file_rank_bounds[of idx] by (simp add: coordToAN_def parseCoord_in_array)

lemma small_cases: "0 \<le> (i::int) \<Longrightarrow> i < 8 \<Longrightarrow> i = 0 \<or> i = 1 \<or> i = 2 \<or> i = 3 \<or> i = 4 \<or> i = 5 \<or> i = 6 \<or> i = 7"
  by arith

lemma FILES_nth:
  "FILES ! nat 0 = CHR ''a''" "FILES ! nat 1 = CHR ''b''" "FILES ! nat 2 = CHR ''c''"
  "FILES ! nat 3 = CHR ''d''" "FILES ! nat 4 = CHR ''e''" "FILES ! nat 5 = CHR ''f''"
  "FILES ! nat 6 = CHR ''g''" "FILES ! nat 7 = CHR ''h''"
  by (simp_all add: FILES_def)

lemma RANKS_nth:
  "RANKS ! nat 0 = CHR ''1''" "RANKS ! nat 1 = CHR ''2''" "RANKS ! nat 2 = CHR ''3''"
  "RANKS ! nat 3 = CHR ''4''" "RANKS ! nat 4 = CHR ''5''" "RANKS ! nat 5 = CHR ''6''"
  "RANKS ! nat 6 = CHR ''7''" "RANKS ! nat 7 = CHR ''8''"
  by (simp_all add: RANKS_def)

lemma FILES_inj:
  assumes "0 \<le> i" "i < 8" "0 \<le> j" "j < 8"
  shows "(FILES ! nat i = FILES ! nat j) = (i = j)"
  using small_cases[OF assms(1,2)] small_cases[OF assms(3,4)] by (elim disjE; simp only: FILES_nth; simp)

lemma RANKS_inj:
  assumes "0 \<le> i" "i < 8" "0 \<le> j" "j < 8"
  shows "(RANKS ! nat i = RANKS ! nat j) = (i = j)"
  using small_cases[OF assms(1,2)] small_cases[OF assms(3,4)] by (elim disjE; simp only: RANKS_nth; simp)

lemma FILES_RANKS_disj:
  assumes "0 \<le> i" "i < 8" "0 \<le> j" "j < 8"
  shows "FILES ! nat i \<noteq> RANKS ! nat j"
  using small_cases[OF assms(1,2)] small_cases[OF assms(3,4)] by (elim disjE; simp only: FILES_nth RANKS_nth; simp)



subsection \<open>The departure text\<close>

lemma dep_matches_cases:
  assumes "in_array (from' m)" "in_array (from' other)"
  shows "dep_matches [coordToAN (from' m) ! 0] other \<longleftrightarrow> from' other mod 8 = from' m mod 8"
    and "dep_matches [coordToAN (from' m) ! 1] other \<longleftrightarrow> from' other div 16 = from' m div 16"
    and "dep_matches (coordToAN (from' m)) other \<longleftrightarrow> from' other = from' m"
proof -
  define f r f' r' where defs: "f = from' m mod 8" "r = from' m div 16"
    "f' = from' other mod 8" "r' = from' other div 16"
  have b: "0 \<le> f" "f < 8" "0 \<le> r" "r < 8" "0 \<le> f'" "f' < 8" "0 \<le> r'" "r' < 8"
    using file_rank_bounds[OF assms(1)] file_rank_bounds[OF assms(2)] unfolding defs by simp_all
  have c: "coordToAN (from' m) = [FILES ! nat f, RANKS ! nat r]"
    "coordToAN (from' other) = [FILES ! nat f', RANKS ! nat r']"
    unfolding defs by (simp_all add: coordToAN_in_array assms)
  have d: "FILES ! nat f \<noteq> RANKS ! nat r'" "RANKS ! nat r \<noteq> FILES ! nat f'"
    using FILES_RANKS_disj[of f r'] FILES_RANKS_disj[of f' r] b by auto
  have "dep_matches [coordToAN (from' m) ! 0] other \<longleftrightarrow> f' = f"
    unfolding dep_matches_def c using b d by (auto simp: FILES_inj)
  then show "dep_matches [coordToAN (from' m) ! 0] other \<longleftrightarrow> from' other mod 8 = from' m mod 8"
    unfolding defs .
  have "dep_matches [coordToAN (from' m) ! 1] other \<longleftrightarrow> r' = r"
    unfolding dep_matches_def c using b d by (auto simp: RANKS_inj)
  then show "dep_matches [coordToAN (from' m) ! 1] other \<longleftrightarrow> from' other div 16 = from' m div 16"
    unfolding defs .
  have "dep_matches (coordToAN (from' m)) other \<longleftrightarrow> f' = f \<and> r' = r"
    unfolding dep_matches_def c using b d by (auto simp: RANKS_inj FILES_inj)
  also have "\<dots> \<longleftrightarrow> from' other = from' m"
    unfolding defs using in_array_eqI[OF assms(2) assms(1)] by auto
  finally show "dep_matches (coordToAN (from' m)) other \<longleftrightarrow> from' other = from' m" .
qed


lemma identifies_empty: "identifies ms m [] \<longleftrightarrow> filter (twin m) ms = []"
  unfolding identifies_def dep_matches_def twin_def filter_empty_conv by blast

lemma identifies_file:
  assumes "in_array (from' m)" "\<forall>other\<in>set ms. in_array (from' other)"
  shows "identifies ms m [coordToAN (from' m) ! 0]
     \<longleftrightarrow> (\<forall>other\<in>set (filter (twin m) ms). from' other mod 8 \<noteq> from' m mod 8)"
proof -
  have "\<And>other. other \<in> set ms \<Longrightarrow>
      dep_matches [coordToAN (from' m) ! 0] other \<longleftrightarrow> from' other mod 8 = from' m mod 8"
    using assms dep_matches_cases(1) by blast
  then show ?thesis unfolding identifies_def twin_def set_filter by blast
qed

lemma identifies_rank:
  assumes "in_array (from' m)" "\<forall>other\<in>set ms. in_array (from' other)"
  shows "identifies ms m [coordToAN (from' m) ! 1]
     \<longleftrightarrow> (\<forall>other\<in>set (filter (twin m) ms). from' other div 16 \<noteq> from' m div 16)"
proof -
  have "\<And>other. other \<in> set ms \<Longrightarrow>
      dep_matches [coordToAN (from' m) ! 1] other \<longleftrightarrow> from' other div 16 = from' m div 16"
    using assms dep_matches_cases(2) by blast
  then show ?thesis unfolding identifies_def twin_def set_filter by blast
qed

lemma identifies_full:
  assumes "in_array (from' m)" "\<forall>other\<in>set ms. in_array (from' other)"
  shows "identifies ms m (coordToAN (from' m))"
proof -
  have "\<And>other. other \<in> set ms \<Longrightarrow>
      dep_matches (coordToAN (from' m)) other \<longleftrightarrow> from' other = from' m"
    using assms dep_matches_cases(3) by blast
  then show ?thesis unfolding identifies_def by blast
qed

lemma getDeparture_unfold:
  assumes "in_array (from' m)" "\<forall>other\<in>set ms. in_array (from' other)"
  shows "getDeparture ms m =
     (if spaceGetType (what m) = PIECETYPE_PAWN \<and> capture m \<noteq> 0 then [coordToAN (from' m) ! 0]
      else if filter (twin m) ms = [] then []
      else if \<forall>other\<in>set (filter (twin m) ms). from' other mod 8 \<noteq> from' m mod 8
        then [coordToAN (from' m) ! 0]
      else if \<forall>other\<in>set (filter (twin m) ms). from' other div 16 \<noteq> from' m div 16
        then [coordToAN (from' m) ! 1]
      else coordToAN (from' m))"
proof -
  have tw: "(\<lambda>other. from' other \<noteq> from' m \<and> to' other = to' m
              \<and> spaceGetType (what other) = spaceGetType (what m)) = twin m"
    unfolding twin_def by blast
  have p: "\<And>other. other \<in> set (filter (twin m) ms) \<Longrightarrow>
     parseCoord (from' other) = (from' other mod 8, from' other div 16)"
    using assms(2) parseCoord_in_array by simp
  have f: "list_all (\<lambda>other. fst (parseCoord (from' other)) \<noteq> from' m mod 8) (filter (twin m) ms)
     \<longleftrightarrow> (\<forall>other\<in>set (filter (twin m) ms). from' other mod 8 \<noteq> from' m mod 8)"
    unfolding list_all_iff using p by (intro ball_cong refl) simp
  have r: "list_all (\<lambda>other. snd (parseCoord (from' other)) \<noteq> from' m div 16) (filter (twin m) ms)
     \<longleftrightarrow> (\<forall>other\<in>set (filter (twin m) ms). from' other div 16 \<noteq> from' m div 16)"
    unfolding list_all_iff using p by (intro ball_cong refl) simp
  show ?thesis
    unfolding getDeparture_def Let_def tw parseCoord_in_array[OF assms(1)] prod.case f r length_0_conv
    by (rule refl)
qed


lemma length_coordToAN: "in_array idx \<Longrightarrow> length (coordToAN idx) = 2"
  by (simp add: coordToAN_in_array)

text \<open>
  C6. For a move whose origin is a square of the board, and a list of moves whose origins
  are: a pawn capture is always rendered with the departure file; for any other move the
  departure is one of the four candidate texts (empty, file letter, rank digit, full
  square), it identifies the move among the moves of the same piece type to the same
  destination, and no candidate that identifies the move is shorter; and when the move
  has a twin on its file and a twin on its rank, the departure is the full source
  square.
\<close>

theorem getDeparture_shortest:
  assumes "in_array (from' m)" "\<forall>other\<in>set ms. in_array (from' other)"
  shows "(spaceGetType (what m) = PIECETYPE_PAWN \<and> capture m \<noteq> 0
            \<longrightarrow> getDeparture ms m = [coordToAN (from' m) ! 0])
       \<and> (\<not> (spaceGetType (what m) = PIECETYPE_PAWN \<and> capture m \<noteq> 0)
            \<longrightarrow> getDeparture ms m \<in> set (departures m)
              \<and> identifies ms m (getDeparture ms m)
              \<and> (\<forall>d\<in>set (departures m). identifies ms m d
                     \<longrightarrow> length (getDeparture ms m) \<le> length d))
       \<and> (\<not> (spaceGetType (what m) = PIECETYPE_PAWN \<and> capture m \<noteq> 0)
            \<and> (\<exists>other\<in>set ms. twin m other
                   \<and> fst (parseCoord (from' other)) = fst (parseCoord (from' m)))
            \<and> (\<exists>other\<in>set ms. twin m other
                   \<and> snd (parseCoord (from' other)) = snd (parseCoord (from' m)))
            \<longrightarrow> getDeparture ms m = coordToAN (from' m))"
proof -
  define pc where "pc \<longleftrightarrow> spaceGetType (what m) = PIECETYPE_PAWN \<and> capture m \<noteq> 0"
  define E where "E \<longleftrightarrow> filter (twin m) ms = []"
  define F where "F \<longleftrightarrow> (\<forall>other\<in>set (filter (twin m) ms). from' other mod 8 \<noteq> from' m mod 8)"
  define R where "R \<longleftrightarrow> (\<forall>other\<in>set (filter (twin m) ms). from' other div 16 \<noteq> from' m div 16)"
  define g where "g = getDeparture ms m"
  define full where "full = coordToAN (from' m)"
  have u: "g = (if pc then [full ! 0] else if E then [] else if F then [full ! 0]
                else if R then [full ! 1] else full)"
    unfolding g_def pc_def E_def F_def R_def full_def by (rule getDeparture_unfold[OF assms])
  have ie: "identifies ms m [] \<longleftrightarrow> E"
    unfolding E_def by (rule identifies_empty)
  have ifl: "identifies ms m [full ! 0] \<longleftrightarrow> F"
    unfolding F_def full_def by (rule identifies_file[OF assms])
  have ir: "identifies ms m [full ! 1] \<longleftrightarrow> R"
    unfolding R_def full_def by (rule identifies_rank[OF assms])
  have ifu: "identifies ms m full"
    unfolding full_def by (rule identifies_full[OF assms])
  have len: "length full = 2" unfolding full_def by (rule length_coordToAN[OF assms(1)])
  have deps: "set (departures m) = {[], [full ! 0], [full ! 1], full}"
    unfolding departures_def full_def by simp
  have one: "pc \<longrightarrow> g = [full ! 0]"
    using u by simp
  have two: "\<not> pc \<longrightarrow> g \<in> set (departures m) \<and> identifies ms m g
              \<and> (\<forall>d\<in>set (departures m). identifies ms m d \<longrightarrow> length g \<le> length d)"
    unfolding deps using u ie ifl ir ifu len by auto
  have three: "\<not> pc
            \<and> (\<exists>other\<in>set ms. twin m other
                   \<and> fst (parseCoord (from' other)) = fst (parseCoord (from' m)))
            \<and> (\<exists>other\<in>set ms. twin m other
                   \<and> snd (parseCoord (from' other)) = snd (parseCoord (from' m)))
            \<longrightarrow> g = full"
  proof
    assume h: "\<not> pc
            \<and> (\<exists>other\<in>set ms. twin m other
                   \<and> fst (parseCoord (from' other)) = fst (parseCoord (from' m)))
            \<and> (\<exists>other\<in>set ms. twin m other
                   \<and> snd (parseCoord (from' other)) = snd (parseCoord (from' m)))"
    then obtain o1 o2 where o: "o1 \<in> set ms" "twin m o1"
        "fst (parseCoord (from' o1)) = fst (parseCoord (from' m))"
        "o2 \<in> set ms" "twin m o2"
        "snd (parseCoord (from' o2)) = snd (parseCoord (from' m))" by blast
    have "from' o1 mod 8 = from' m mod 8"
      using o(1,3) assms parseCoord_in_array by simp
    then have nf: "\<not> F" unfolding F_def using o(1,2) by auto
    have "from' o2 div 16 = from' m div 16"
      using o(4,6) assms parseCoord_in_array by simp
    then have nr: "\<not> R" unfolding R_def using o(4,5) by auto
    have ne: "\<not> E" unfolding E_def using o(1,2) by (auto simp: filter_empty_conv)
    show "g = full" using u h nf nr ne by simp
  qed
  show ?thesis using one two three unfolding pc_def g_def full_def by blast
qed


lemma in_array_numeral [simp]: "in_array (numeral k) \<longleftrightarrow> (numeral k :: int) < 128 \<and> (numeral k :: int) mod 16 < 8"
  by (simp add: in_array_alt)

lemma in_array_0 [simp]: "in_array 0"
  by (simp add: in_array_alt)

text \<open>
  Three white knights on g1, g5 and e1 can all go to f3: for the knight on g1 the
  departure is \<open>g1\<close>; with only the twin on its file it is the rank, with only the twin
  on its rank it is the file, and alone it is empty.
\<close>

theorem getDeparture_shortest_witness:
  "getDeparture [knight_to_f3 0x06, knight_to_f3 0x46, knight_to_f3 0x04] (knight_to_f3 0x06) = ''g1''
   \<and> identifies [knight_to_f3 0x06, knight_to_f3 0x46, knight_to_f3 0x04] (knight_to_f3 0x06) ''g1''
   \<and> getDeparture [knight_to_f3 0x06, knight_to_f3 0x46] (knight_to_f3 0x06) = ''1''
   \<and> getDeparture [knight_to_f3 0x06, knight_to_f3 0x04] (knight_to_f3 0x06) = ''g''
   \<and> getDeparture [knight_to_f3 0x06] (knight_to_f3 0x06) = []"
proof -
  let ?ms = "[knight_to_f3 0x06, knight_to_f3 0x46, knight_to_f3 0x04]"
  let ?m = "knight_to_f3 0x06"
  have a: "in_array (from' ?m)" by (simp add: knight_to_f3_def createSimpleMove_def createFullMove_def)
  have b: "\<forall>other\<in>set ?ms. in_array (from' other)"
    by (simp add: knight_to_f3_def createSimpleMove_def createFullMove_def)
  have c: "\<not> (spaceGetType (what ?m) = PIECETYPE_PAWN \<and> capture ?m \<noteq> 0)"
    by (simp add: knight_to_f3_def createSimpleMove_def createFullMove_def)
  have e: "getDeparture ?ms ?m = ''g1''"
    "getDeparture [knight_to_f3 0x06, knight_to_f3 0x46] (knight_to_f3 0x06) = ''1''"
    "getDeparture [knight_to_f3 0x06, knight_to_f3 0x04] (knight_to_f3 0x06) = ''g''"
    "getDeparture [knight_to_f3 0x06] (knight_to_f3 0x06) = []"
    by (simp_all add: getDeparture_def knight_to_f3_def createSimpleMove_def createFullMove_def
        coordToAN_def parseCoord_def FILES_def RANKS_def spaceGetType_def PIECETYPE_PAWN_def
        drop_bit_eq_div)
  from getDeparture_shortest[OF a b] c have "identifies ?ms ?m (getDeparture ?ms ?m)" by blast
  with e show ?thesis by simp
qed

lemma take_eq_length: "take n xs = take n ys \<Longrightarrow> n \<le> length ys \<Longrightarrow> n \<le> length xs"
  by (metis length_take min.absorb2 min.cobounded1)

lemma take_eq_nth: "take n xs = take n ys \<Longrightarrow> i < n \<Longrightarrow> xs ! i = ys ! i"
  by (metis nth_take)

lemma frame_refl: "wfb b \<Longrightarrow> frame b b"
  by (simp add: frame_def wfb_def)

lemma frame_wfb: "frame b b' \<Longrightarrow> wfb b \<and> wfb b'"
  unfolding frame_def wfb_def using take_eq_length[of "Suc (layerIdx b)" "layers b'" "layers b"]
  by auto

lemma frame_current: "frame b b' \<Longrightarrow> current b' = current b"
  unfolding frame_def current_def using take_eq_nth[of "Suc (layerIdx b)" "layers b'" "layers b" "layerIdx b"]
  by auto

lemma frame_trans: "frame b b' \<Longrightarrow> frame b' b'' \<Longrightarrow> frame b b''"
  unfolding frame_def by auto

lemma save_above: "wfb b \<Longrightarrow> above b (Board_save b)"
  unfolding above_def wfb_def Board_save_def Let_def by auto

lemma current_save:
  "wfb b \<Longrightarrow> \<exists>X. current (Board_save b) = copyLayer (current b) X"
  unfolding wfb_def Board_save_def Let_def current_def by (auto simp: nth_append)

lemma above_wfb: "above b b1 \<Longrightarrow> wfb b1"
  by (simp add: above_def wfb_def)

lemma above_set_current: "above b b1 \<Longrightarrow> above b (set_current b1 L)"
  unfolding above_def set_current_def by auto

lemma current_set_current: "wfb b \<Longrightarrow> current (set_current b L) = L"
  unfolding wfb_def set_current_def current_def by simp

lemma above_frame: "above b b1 \<Longrightarrow> frame b1 b2 \<Longrightarrow> above b b2"
proof -
  assume a: "above b b1" and f: "frame b1 b2"
  from f have w: "wfb b2" using frame_wfb by blast
  have "take (Suc (layerIdx b)) (take (Suc (layerIdx b1)) (layers b2))
      = take (Suc (layerIdx b)) (take (Suc (layerIdx b1)) (layers b1))"
    using f unfolding frame_def by simp
  then have "take (Suc (layerIdx b)) (layers b2) = take (Suc (layerIdx b)) (layers b1)"
    using a unfolding above_def by (simp add: min_def)
  then show ?thesis using a f w unfolding above_def frame_def wfb_def by auto
qed

lemma above_restore: "above b b1 \<Longrightarrow> wfb b \<Longrightarrow> frame b (Board_restore b1)"
  unfolding above_def frame_def wfb_def Board_restore_def by auto

lemma frame_set_current_wfb: "wfb b \<Longrightarrow> wfb (set_current b L)"
  by (simp add: wfb_def set_current_def)

lemma same_core_refl: "same_core L L"
  by (simp add: same_core_def)

lemma same_core_sym: "same_core L L' \<Longrightarrow> same_core L' L"
  by (simp add: same_core_def)

lemma same_core_trans: "same_core L L' \<Longrightarrow> same_core L' L'' \<Longrightarrow> same_core L L''"
  by (simp add: same_core_def)

lemma same_core_copyLayer: "same_core (copyLayer src dest) src"
  by (simp add: same_core_def copyLayer_def)

lemma Layer_set_board: "board (Layer_set L i s) = (board L)[nat i := s mod 256]"
  by (simp add: Layer_set_def Let_def attackMapAddPiece_def attackMapRemovePiece_def)

lemma Layer_set_pieceList:
  "pieceList (Layer_set L i s) =
     (if board L ! nat i = SPACE_EMPTY \<and> s \<noteq> SPACE_EMPTY then pieceList L @ [i]
      else if board L ! nat i \<noteq> SPACE_EMPTY \<and> s = SPACE_EMPTY then pieceList_remove (pieceList L) i
      else pieceList L)"
  by (simp add: Layer_set_def Let_def attackMapAddPiece_def attackMapRemovePiece_def)

lemma Layer_set_attacks:
  "attacks (Layer_set L i s) =
     (if s = SPACE_EMPTY \<and> board L ! nat i = SPACE_EMPTY then attacks L
      else attack_map ((board L)[nat i := s mod 256]))"
  by (simp add: Layer_set_def Let_def attackMapAddPiece_def attackMapRemovePiece_def SPACE_EMPTY_def)

lemma Layer_set_core: "same_core L L' \<Longrightarrow> same_core (Layer_set L i s) (Layer_set L' i s)"
  unfolding same_core_def by (simp add: Layer_set_board Layer_set_pieceList Layer_set_attacks)

lemma performMove_sets_core:
  "same_core L L' \<Longrightarrow> same_core (performMove_sets L m) (performMove_sets L' m)"
  unfolding performMove_sets_def Let_def by (simp add: Layer_set_core)

lemma danger_core: "same_core L L' \<Longrightarrow> danger L c = danger L' c"
  by (simp add: same_core_def danger_def)

lemma kingInDanger_loop_Some:
  "kingInDanger_loop b c xs = Some d \<Longrightarrow>
     d = (\<exists>idx\<in>set xs. spaceGetType (board (current b) ! nat idx) = PIECETYPE_KING
            \<and> spaceGetColor (board (current b) ! nat idx) = c
            \<and> attackMapIsAttacked b idx (8 - c))"
proof (induction xs)
  case Nil
  then show ?case by simp
next
  case (Cons a xs)
  then show ?case
    by (auto simp: Board_get_def split: if_splits)
qed

lemma kingInDanger_Some: "kingInDanger b c = Some d \<Longrightarrow> d = danger (current b) c"
  unfolding kingInDanger_def danger_def
  using kingInDanger_loop_Some[of b c "pieceList (current b)" d]
  by (simp add: attackMapIsAttacked_def)

lemma kingInDanger_loop_total:
  "\<forall>idx\<in>set xs. in_array idx \<Longrightarrow> \<exists>d. kingInDanger_loop b c xs = Some d"
  by (induction xs) (auto simp: Board_get_def)

lemma kingInDanger_total:
  "\<forall>idx\<in>set (pieceList (current b)). in_array idx \<Longrightarrow> kingInDanger b c = Some (danger (current b) c)"
  using kingInDanger_loop_total[of "pieceList (current b)" b c] kingInDanger_Some[of b c]
  unfolding kingInDanger_def by auto

lemma set_current_twice: "set_current (set_current b L) L' = set_current b L'"
  by (simp add: set_current_def)

lemma layerIdx_set_current: "layerIdx (set_current b L) = layerIdx b"
  by (simp add: set_current_def)

lemma Board_set_Some:
  "Board_set b i s = Some b' \<longleftrightarrow> in_array i \<and> b' = set_current b (Layer_set (current b) i s)"
  by (auto simp: Board_set_def)

lemma putBoardHash_snd: "\<exists>sn. snd (putBoardHash b h) = set_current b ((current b)\<lparr>seen := sn\<rparr>)"
  by (auto simp: putBoardHash_def Let_def split: option.splits prod.splits)

lemma performMove_Some:
  assumes "wfb b" "performMove b m = Some b'"
  shows "move_squares_ok m \<and>
     (\<exists>sn. b' = set_current b ((performMove_meta (performMove_sets (current b) m) m)\<lparr>seen := sn\<rparr>))"
proof -
  note cs = current_set_current[OF assms(1)]
  have w: "\<And>L. wfb (set_current b L)" using assms(1) by (simp add: wfb_def set_current_def)
  have cs2: "\<And>L L'. current (set_current (set_current b L) L') = L'"
    using current_set_current[OF w] by simp
  from assms(2) obtain b5 where
    sq: "move_squares_ok m" and b5: "b5 = set_current b (performMove_sets (current b) m)"
    and r: "b' = snd (putBoardHash (set_current b5 (performMove_meta (current b5) m))
                (hashBoard (set_current b5 (performMove_meta (current b5) m))))"
    unfolding performMove_def performMove_sets_def move_squares_ok_def Let_def
    by (auto simp: Board_set_Some cs cs2 set_current_twice bind_eq_Some_conv split: if_splits)
  from putBoardHash_snd obtain sn where
    "b' = set_current (set_current b5 (performMove_meta (current b5) m))
            ((current (set_current b5 (performMove_meta (current b5) m)))\<lparr>seen := sn\<rparr>)"
    using r by metis
  then have "b' = set_current b ((performMove_meta (performMove_sets (current b) m) m)\<lparr>seen := sn\<rparr>)"
    unfolding b5 by (simp add: set_current_twice cs cs2)
  with sq show ?thesis by blast
qed

lemma performMove_total:
  assumes "wfb b" "move_squares_ok m"
  shows "\<exists>b'. performMove b m = Some b'"
proof -
  have "\<And>b i s. in_array i \<Longrightarrow> Board_set b i s = Some (set_current b (Layer_set (current b) i s))"
    by (simp add: Board_set_def)
  then show ?thesis using assms(2)
    unfolding performMove_def move_squares_ok_def Let_def by (auto split: if_splits)
qed

lemma performMove_meta_core: "same_core (performMove_meta L m) L"
  by (simp add: same_core_def performMove_meta_def)

lemma seen_update_core: "same_core (L\<lparr>seen := sn\<rparr>) L"
  by (simp add: same_core_def)

lemma performMove_current_core:
  assumes "wfb b" "performMove b m = Some b'"
  shows "same_core (current b') (performMove_sets (current b) m)" "layerIdx b' = layerIdx b"
    "wfb b'" "frame b1 b \<Longrightarrow> above b0 b \<Longrightarrow> above b0 b'"
proof -
  from performMove_Some[OF assms] obtain sn where
    b': "b' = set_current b ((performMove_meta (performMove_sets (current b) m) m)\<lparr>seen := sn\<rparr>)"
    by blast
  show "same_core (current b') (performMove_sets (current b) m)"
    unfolding b' current_set_current[OF assms(1)]
    using seen_update_core performMove_meta_core same_core_trans by blast
  show "layerIdx b' = layerIdx b" unfolding b' by (simp add: set_current_def)
  show "wfb b'" unfolding b' using assms(1) by (simp add: wfb_def set_current_def)
  show "frame b1 b \<Longrightarrow> above b0 b \<Longrightarrow> above b0 b'"
    unfolding b' by (rule above_set_current)
qed

lemma tryPushMove_Some:
  assumes "wfb b" "tryPushMove b out m = Some (b', out')"
  shows "frame b b' \<and> move_squares_ok m \<and> out' = out @ push_result (current b) m"
proof -
  from assms(2) obtain b2 d where
    pm: "performMove (Board_save b) m = Some b2" and kd: "kingInDanger b2 (spaceGetColor (what m)) = Some d"
    and b': "b' = Board_restore b2"
    and o: "out' = (if \<not> d then (if promote m \<noteq> 0 then out @ map (moveToPromotion m) PROMOTIONS
                       else out @ [m]) else out)"
    unfolding tryPushMove_def Let_def by (auto simp: bind_eq_Some_conv)
  have ab: "above b (Board_save b)" by (rule save_above[OF assms(1)])
  have w1: "wfb (Board_save b)" by (rule above_wfb[OF ab])
  from performMove_Some[OF w1 pm] obtain sn where sq: "move_squares_ok m"
    and b2: "b2 = set_current (Board_save b)
       ((performMove_meta (performMove_sets (current (Board_save b)) m) m)\<lparr>seen := sn\<rparr>)"
    by blast
  have ab2: "above b b2" unfolding b2 by (rule above_set_current[OF ab])
  have fr: "frame b b'" unfolding b' by (rule above_restore[OF ab2 assms(1)])
  obtain X where X: "current (Board_save b) = copyLayer (current b) X"
    using current_save[OF assms(1)] by blast
  have "same_core (current b2) (performMove_sets (current (Board_save b)) m)"
    by (rule performMove_current_core(1)[OF w1 pm])
  moreover have "same_core (performMove_sets (current (Board_save b)) m) (performMove_sets (current b) m)"
    unfolding X by (rule performMove_sets_core[OF same_core_copyLayer])
  ultimately have "same_core (current b2) (performMove_sets (current b) m)"
    by (rule same_core_trans)
  then have "danger (current b2) (spaceGetColor (what m))
      = danger (performMove_sets (current b) m) (spaceGetColor (what m))"
    by (rule danger_core)
  with kingInDanger_Some[OF kd] have "d = danger (performMove_sets (current b) m) (spaceGetColor (what m))"
    by simp
  with o have "out' = out @ push_result (current b) m"
    by (simp add: push_result_def)
  with fr sq show ?thesis by blast
qed

lemma gen_ok_refl: "wfb b \<Longrightarrow> gen_ok b sp idx out b out"
  by (simp add: gen_ok_def frame_refl)

lemma gen_ok_trans:
  assumes "gen_ok b sp idx out b1 out1" "gen_ok b1 sp idx out1 b2 out2"
  shows "gen_ok b sp idx out b2 out2"
proof -
  from assms(1) obtain n1 where f1: "frame b b1" and o1: "out1 = out @ n1"
    and e1: "\<forall>m\<in>set n1. emitted (current b) sp idx m" unfolding gen_ok_def by blast
  from assms(2) obtain n2 where f2: "frame b1 b2" and o2: "out2 = out1 @ n2"
    and e2: "\<forall>m\<in>set n2. emitted (current b1) sp idx m" unfolding gen_ok_def by blast
  have c: "current b1 = current b" by (rule frame_current[OF f1])
  have "out2 = out @ (n1 @ n2)" using o1 o2 by simp
  moreover have "\<forall>m\<in>set (n1 @ n2). emitted (current b) sp idx m" using e1 e2 c by auto
  ultimately show ?thesis unfolding gen_ok_def using frame_trans[OF f1 f2] by blast
qed

lemma gen_ok_wfb: "gen_ok b sp idx out b' out' \<Longrightarrow> wfb b'"
  unfolding gen_ok_def using frame_wfb by blast

lemma tryPushMove_gen_ok:
  assumes "wfb b" "tryPushMove b out m = Some (b', out')" "cand (current b) sp idx m"
  shows "gen_ok b sp idx out b' out'"
proof -
  from tryPushMove_Some[OF assms(1,2)] have f: "frame b b'" and sq: "move_squares_ok m"
    and o: "out' = out @ push_result (current b) m" by blast+
  have "\<forall>x\<in>set (push_result (current b) m). emitted (current b) sp idx x"
    unfolding emitted_def using assms(3) sq by blast
  with f o show ?thesis unfolding gen_ok_def by blast
qed

lemma cand_simple [simp]:
  "cand L sp idx (createSimpleMove sp idx t pr)"
  "cand L sp idx (createSimpleCapture sp idx t c cc pr)"
  "cand L sp idx (createFullMove sp idx t c cc 0 0 0 0 e pr)"
  "cand L sp idx (createFullMove sp idx t c cc 0 0 0 PIECETYPE_QUEEN e pr)"
  by (simp_all add: cand_def createSimpleMove_def createSimpleCapture_def createFullMove_def)

lemma findMoves_ray_gen_ok:
  "wfb b \<Longrightarrow> findMoves_ray b sp idx step newIdx k out pr = Some (b', out')
     \<Longrightarrow> gen_ok b sp idx out b' out'"
proof (induction k arbitrary: b newIdx out)
  case 0
  then show ?case by (simp add: gen_ok_refl)
next
  case (Suc k)
  show ?case
  proof (cases "newIdx AND 0x88 \<noteq> 0")
    case True
    with Suc.prems show ?thesis by (simp add: gen_ok_refl)
  next
    case False
    with Suc.prems(2) obtain newSp where g: "Board_get b newIdx = Some newSp"
      and r: "(if newSp = SPACE_EMPTY then
                 Option.bind (tryPushMove b out (createSimpleMove sp idx newIdx pr))
                   (\<lambda>(b', out'). findMoves_ray b' sp idx step (newIdx + step) k out' pr)
               else if spaceGetColor newSp = 8 - spaceGetColor sp
               then tryPushMove b out (createSimpleCapture sp idx newIdx newSp newIdx pr)
               else Some (b, out)) = Some (b', out')"
      by (auto simp: bind_eq_Some_conv)
    show ?thesis
    proof (cases "newSp = SPACE_EMPTY")
      case True
      with r obtain b1 out1 where
        t: "tryPushMove b out (createSimpleMove sp idx newIdx pr) = Some (b1, out1)"
        and f: "findMoves_ray b1 sp idx step (newIdx + step) k out1 pr = Some (b', out')"
        by (auto simp: bind_eq_Some_conv)
      have g1: "gen_ok b sp idx out b1 out1"
        by (rule tryPushMove_gen_ok[OF Suc.prems(1) t]) simp
      have "gen_ok b1 sp idx out1 b' out'"
        by (rule Suc.IH[OF gen_ok_wfb[OF g1] f])
      with g1 show ?thesis by (rule gen_ok_trans)
    next
      case False
      show ?thesis
      proof (cases "spaceGetColor newSp = 8 - spaceGetColor sp")
        case True
        with r False have
          "tryPushMove b out (createSimpleCapture sp idx newIdx newSp newIdx pr) = Some (b', out')"
          by simp
        then show ?thesis by (rule tryPushMove_gen_ok[OF Suc.prems(1)]) simp
      next
        case c: False
        with r False have "b' = b" "out' = out" by simp_all
        then show ?thesis using Suc.prems(1) by (simp add: gen_ok_refl)
      qed
    qed
  qed
qed

lemma findMoves_dirs_gen_ok:
  "wfb b \<Longrightarrow> findMoves_dirs b sp idx steps maxDist out pr = Some (b', out')
     \<Longrightarrow> gen_ok b sp idx out b' out'"
proof (induction steps arbitrary: b out)
  case Nil
  then show ?case by (simp add: gen_ok_refl)
next
  case (Cons step steps)
  from Cons.prems(2) obtain b1 out1 where
    r: "findMoves_ray b sp idx step (idx + step) maxDist out pr = Some (b1, out1)"
    and d: "findMoves_dirs b1 sp idx steps maxDist out1 pr = Some (b', out')"
    by (auto simp: bind_eq_Some_conv)
  have g1: "gen_ok b sp idx out b1 out1" by (rule findMoves_ray_gen_ok[OF Cons.prems(1) r])
  have "gen_ok b1 sp idx out1 b' out'" by (rule Cons.IH[OF gen_ok_wfb[OF g1] d])
  with g1 show ?case by (rule gen_ok_trans)
qed

lemma findMoves_gen_ok:
  "wfb b \<Longrightarrow> findMoves b sp idx dirs lo hi maxDist out pr = Some (b', out')
     \<Longrightarrow> gen_ok b sp idx out b' out'"
  unfolding findMoves_def by (rule findMoves_dirs_gen_ok)

lemma pawnCaptures_gen_ok:
  "wfb b \<Longrightarrow> prom = 0 \<or> prom = PIECETYPE_QUEEN
     \<Longrightarrow> pawnCaptures b sp idx oneUp prom epT steps out pr = Some (b', out')
     \<Longrightarrow> gen_ok b sp idx out b' out'"
proof (induction steps arbitrary: b out)
  case Nil
  then show ?case by (simp add: gen_ok_refl)
next
  case (Cons step steps)
  show ?case
  proof (cases "(oneUp + step) AND 0x88 \<noteq> 0")
    case True
    with Cons.prems(3) have "pawnCaptures b sp idx oneUp prom epT steps out pr = Some (b', out')"
      by (simp add: Let_def)
    then show ?thesis by (rule Cons.IH[OF Cons.prems(1,2)])
  next
    case False
    with Cons.prems(3) obtain spot b1 out1 where
      t: "(if oneUp + step = epT then
             Option.bind (Board_get b (idx + step)) (\<lambda>epSpot.
               tryPushMove b out (createFullMove sp idx (oneUp + step) epSpot (idx + step) 0 0 0 prom 0 pr))
           else if spot \<noteq> SPACE_EMPTY \<and> spaceGetColor spot = 8 - spaceGetColor sp
           then tryPushMove b out (createFullMove sp idx (oneUp + step) spot (oneUp + step) 0 0 0 prom 0 pr)
           else Some (b, out)) = Some (b1, out1)"
      and r: "pawnCaptures b1 sp idx oneUp prom epT steps out1 pr = Some (b', out')"
      by (auto simp: Let_def bind_eq_Some_conv cong: if_cong)
    have c: "\<And>t c cc. cand (current b) sp idx (createFullMove sp idx t c cc 0 0 0 prom 0 pr)"
      using Cons.prems(2) by auto
    have g1: "gen_ok b sp idx out b1 out1"
    proof (cases "oneUp + step = epT")
      case True
      with t obtain epSpot where
        "tryPushMove b out (createFullMove sp idx (oneUp + step) epSpot (idx + step) 0 0 0 prom 0 pr)
           = Some (b1, out1)"
        by (auto simp: bind_eq_Some_conv)
      then show ?thesis by (rule tryPushMove_gen_ok[OF Cons.prems(1)]) (rule c)
    next
      case ne: False
      show ?thesis
      proof (cases "spot \<noteq> SPACE_EMPTY \<and> spaceGetColor spot = 8 - spaceGetColor sp")
        case True
        with t ne have
          "tryPushMove b out (createFullMove sp idx (oneUp + step) spot (oneUp + step) 0 0 0 prom 0 pr)
             = Some (b1, out1)" by simp
        then show ?thesis by (rule tryPushMove_gen_ok[OF Cons.prems(1)]) (rule c)
      next
        case False
        with t ne have "b1 = b" "out1 = out" by auto
        then show ?thesis using Cons.prems(1) by (simp add: gen_ok_refl)
      qed
    qed
    have "gen_ok b1 sp idx out1 b' out'"
      by (rule Cons.IH[OF gen_ok_wfb[OF g1] Cons.prems(2) r])
    with g1 show ?thesis by (rule gen_ok_trans)
  qed
qed

lemma pawnMoves_gen_ok:
  assumes "wfb b" "pawnMoves b sp idx out pr = Some (b', out')"
  shows "gen_ok b sp idx out b' out'"
proof -
  define dir :: int where "dir = (if spaceGetColor sp = COLOR_WHITE then 1 else -1)"
  define oneUp where "oneUp = idx + 16 * dir"
  define twoUp where "twoUp = idx + 32 * dir"
  define prom where "prom = (if twoUp AND 0x88 \<noteq> 0 then PIECETYPE_QUEEN else 0)"
  have pq: "prom = 0 \<or> prom = PIECETYPE_QUEEN" by (simp add: prom_def)
  show ?thesis
  proof (cases "oneUp AND 0x88 \<noteq> 0")
    case True
    with assms(2) have "b' = b" "out' = out"
      unfolding pawnMoves_def Let_def oneUp_def dir_def by simp_all
    then show ?thesis using assms(1) by (simp add: gen_ok_refl)
  next
    case False
    with assms(2) obtain oneSp b2 out2 where
      first: "(if oneSp = SPACE_EMPTY then
                Option.bind (tryPushMove b out (createFullMove sp idx oneUp 0 0 0 0 0 prom 0 pr))
                  (\<lambda>(b1, out1).
                    if \<not> spaceHasMoved sp \<and> twoUp AND 0x88 = 0 then
                      Option.bind (Board_get b1 twoUp) (\<lambda>twoSp.
                        if twoSp = SPACE_EMPTY
                        then tryPushMove b1 out1 (createFullMove sp idx twoUp 0 0 0 0 0 0 oneUp pr)
                        else Some (b1, out1))
                    else Some (b1, out1))
              else Some (b, out)) = Some (b2, out2)"
      and caps: "pawnCaptures b2 sp idx oneUp prom (ep (current b2)) PAWN_CAPS out2 pr = Some (b', out')"
      unfolding pawnMoves_def Let_def oneUp_def twoUp_def dir_def prom_def
      by (auto simp: bind_eq_Some_conv)
    have c1: "cand (current b) sp idx (createFullMove sp idx oneUp 0 0 0 0 0 prom 0 pr)"
      using pq by auto
    have g2: "gen_ok b sp idx out b2 out2"
    proof (cases "oneSp = SPACE_EMPTY")
      case True
      with first obtain b1 out1 where
        t1: "tryPushMove b out (createFullMove sp idx oneUp 0 0 0 0 0 prom 0 pr) = Some (b1, out1)"
        and second: "(if \<not> spaceHasMoved sp \<and> twoUp AND 0x88 = 0 then
                      Option.bind (Board_get b1 twoUp) (\<lambda>twoSp.
                        if twoSp = SPACE_EMPTY
                        then tryPushMove b1 out1 (createFullMove sp idx twoUp 0 0 0 0 0 0 oneUp pr)
                        else Some (b1, out1))
                    else Some (b1, out1)) = Some (b2, out2)"
        by (auto simp: bind_eq_Some_conv)
      have g1: "gen_ok b sp idx out b1 out1" by (rule tryPushMove_gen_ok[OF assms(1) t1 c1])
      have w1: "wfb b1" by (rule gen_ok_wfb[OF g1])
      have "gen_ok b1 sp idx out1 b2 out2"
      proof (cases "\<not> spaceHasMoved sp \<and> twoUp AND 0x88 = 0")
        case True
        with second obtain twoSp where
          s2: "(if twoSp = SPACE_EMPTY
                then tryPushMove b1 out1 (createFullMove sp idx twoUp 0 0 0 0 0 0 oneUp pr)
                else Some (b1, out1)) = Some (b2, out2)"
          by (auto simp: bind_eq_Some_conv)
        show ?thesis
        proof (cases "twoSp = SPACE_EMPTY")
          case True
          with s2 have "tryPushMove b1 out1 (createFullMove sp idx twoUp 0 0 0 0 0 0 oneUp pr)
              = Some (b2, out2)" by simp
          then show ?thesis by (rule tryPushMove_gen_ok[OF w1]) simp
        next
          case False
          with s2 have "b2 = b1" "out2 = out1" by simp_all
          then show ?thesis using w1 by (simp add: gen_ok_refl)
        qed
      next
        case False
        with second have "b2 = b1" "out2 = out1" by auto
        then show ?thesis using w1 by (simp add: gen_ok_refl)
      qed
      with g1 show ?thesis by (rule gen_ok_trans)
    next
      case False
      with first have "b2 = b" "out2 = out" by simp_all
      then show ?thesis using assms(1) by (simp add: gen_ok_refl)
    qed
    have "gen_ok b2 sp idx out2 b' out'"
      by (rule pawnCaptures_gen_ok[OF gen_ok_wfb[OF g2] pq caps])
    with g2 show ?thesis by (rule gen_ok_trans)
  qed
qed

lemma gen_ok_frame: "frame b b' \<Longrightarrow> gen_ok b sp idx out b' out"
  by (simp add: gen_ok_def)

lemma castle_blocked_False:
  "castle_blocked b m xs = Some False \<Longrightarrow>
     \<forall>i\<in>set xs. i \<noteq> from' m \<and> i \<noteq> castleRookFrom m \<longrightarrow> board (current b) ! nat i = SPACE_EMPTY"
proof (induction xs)
  case Nil
  then show ?case by simp
next
  case (Cons a xs)
  then show ?case
    by (auto simp: Board_get_def bind_eq_Some_conv split: if_splits)
qed

lemma place_kings_Some:
  "wfb b \<Longrightarrow> place_kings b sp xs = Some b' \<Longrightarrow>
     b' = set_current b (fold (\<lambda>i L. Layer_set L i sp) xs (current b))"
proof (induction xs arbitrary: b)
  case Nil
  then show ?case by (simp add: set_current_def current_def wfb_def)
next
  case (Cons a xs)
  from Cons.prems(2) obtain b1 where s: "Board_set b a sp = Some b1"
    and p: "place_kings b1 sp xs = Some b'" by (auto simp: bind_eq_Some_conv)
  from s have b1: "b1 = set_current b (Layer_set (current b) a sp)" by (simp add: Board_set_Some)
  have w1: "wfb b1" unfolding b1 using Cons.prems(1) by (simp add: wfb_def set_current_def)
  have "b' = set_current b1 (fold (\<lambda>i L. Layer_set L i sp) xs (current b1))"
    by (rule Cons.IH[OF w1 p])
  then show ?case unfolding b1 by (simp add: set_current_twice current_set_current[OF Cons.prems(1)])
qed

lemma place_kings_in_array:
  "place_kings b sp xs = Some b' \<Longrightarrow> \<forall>i\<in>set xs. in_array i"
  by (induction xs arbitrary: b) (auto simp: bind_eq_Some_conv Board_set_Some)

lemma fold_set_core:
  "same_core L L' \<Longrightarrow>
     same_core (fold (\<lambda>i L. Layer_set L i sp) xs L) (fold (\<lambda>i L. Layer_set L i sp) xs L')"
  by (induction xs arbitrary: L L') (simp_all add: Layer_set_core)

lemma castle_probe_core: "same_core L L' \<Longrightarrow> same_core (castle_probe L m) (castle_probe L' m)"
  unfolding castle_probe_def by (intro fold_set_core Layer_set_core)

lemma tryCastle_gen_ok:
  assumes w: "wfb b" and t: "tryCastle b out m = Some (b', out')"
    and c: "what m = sp" "from' m = idx" "promote m = 0" "spaceGetType sp = PIECETYPE_KING"
  shows "gen_ok b sp idx out b' out'"
proof -
  from t obtain blocked where bl: "castle_blocked b m (castle_span m) = Some blocked"
    unfolding tryCastle_def Let_def castle_span_def by (auto simp: bind_eq_Some_conv)
  show ?thesis
  proof (cases blocked)
    case True
    with t bl have "b' = b" "out' = out"
      unfolding tryCastle_def Let_def castle_span_def by (auto simp: bind_eq_Some_conv)
    then show ?thesis using w by (simp add: gen_ok_refl)
  next
    case False
    with t bl obtain b2 b3 b4 hasDanger where
      s2: "Board_set (Board_save b) (from' m) SPACE_EMPTY = Some b2"
      and s3: "Board_set b2 (castleRookFrom m) SPACE_EMPTY = Some b3"
      and pk: "place_kings b3 (what m) [min (from' m) (to' m)..max (from' m) (to' m)] = Some b4"
      and kd: "kingInDanger b4 (spaceGetColor (what m)) = Some hasDanger"
      and r: "(if hasDanger then Some (Board_restore b4, out)
               else tryPushMove (Board_restore b4) out m) = Some (b', out')"
      unfolding tryCastle_def Let_def castle_span_def by (auto simp: bind_eq_Some_conv)
    have ab: "above b (Board_save b)" by (rule save_above[OF w])
    have w1: "wfb (Board_save b)" by (rule above_wfb[OF ab])
    obtain X where X: "current (Board_save b) = copyLayer (current b) X"
      using current_save[OF w] by blast
    from s2 have b2: "b2 = set_current (Board_save b) (Layer_set (current (Board_save b)) (from' m) SPACE_EMPTY)"
      by (simp add: Board_set_Some)
    have w2: "wfb b2" unfolding b2 using w1 by (simp add: wfb_def set_current_def)
    have c2: "current b2 = Layer_set (current (Board_save b)) (from' m) SPACE_EMPTY"
      unfolding b2 by (rule current_set_current[OF w1])
    from s3 have b3: "b3 = set_current b2 (Layer_set (current b2) (castleRookFrom m) SPACE_EMPTY)"
      by (simp add: Board_set_Some)
    have w3: "wfb b3" unfolding b3 using w2 by (simp add: wfb_def set_current_def)
    have c3: "current b3 = Layer_set (current b2) (castleRookFrom m) SPACE_EMPTY"
      unfolding b3 by (rule current_set_current[OF w2])
    have b4: "b4 = set_current b3 (fold (\<lambda>i L. Layer_set L i (what m))
                 [min (from' m) (to' m)..max (from' m) (to' m)] (current b3))"
      by (rule place_kings_Some[OF w3 pk])
    have c4: "current b4 = castle_probe (current (Board_save b)) m"
      unfolding b4 current_set_current[OF w3] c3 c2 castle_probe_def by simp
    have ab4: "above b b4"
      unfolding b4 b3 b2 by (intro above_set_current ab)
    have fr: "frame b (Board_restore b4)" by (rule above_restore[OF ab4 w])
    have "same_core (current b4) (castle_probe (current b) m)"
      unfolding c4 X by (rule castle_probe_core[OF same_core_copyLayer])
    then have d: "hasDanger = danger (castle_probe (current b) m) (spaceGetColor (what m))"
      using kingInDanger_Some[OF kd] danger_core by simp
    show ?thesis
    proof (cases hasDanger)
      case True
      with r have "b' = Board_restore b4" "out' = out" by simp_all
      then show ?thesis using fr by (simp add: gen_ok_frame)
    next
      case nd: False
      with r have tp: "tryPushMove (Board_restore b4) out m = Some (b', out')" by simp
      have "castle_checked (current b) m"
        unfolding castle_checked_def
        using castle_blocked_False[of b m "castle_span m"] bl False d nd place_kings_in_array[OF pk]
        by simp
      then have "cand (current (Board_restore b4)) sp idx m"
        unfolding frame_current[OF fr] cand_def using c by simp
      then have "gen_ok (Board_restore b4) sp idx out b' out'"
        using tryPushMove_gen_ok[OF _ tp] frame_wfb[OF fr] by blast
      with gen_ok_frame[OF fr] show ?thesis by (rule gen_ok_trans)
    qed
  qed
qed

lemma findKingCastles_gen_ok:
  assumes w: "wfb b" and t: "findKingCastles b sp idx out pr = Some (b', out')"
    and k: "spaceGetType sp = PIECETYPE_KING"
  shows "gen_ok b sp idx out b' out'"
proof (cases "spaceHasMoved sp")
  case True
  with t have "b' = b" "out' = out" unfolding findKingCastles_def by simp_all
  then show ?thesis using w by (simp add: gen_ok_refl)
next
  case False
  define kR where "kR = castleMapGetFile (castles (current b)) (spaceGetColor sp) True"
  define qR where "qR = castleMapGetFile (castles (current b)) (spaceGetColor sp) False"
  define rank where "rank = idx AND 0xf0"
  from t False obtain b1 out1 where
    ks: "(if kR AND 8 = 0 then
            Option.bind (Board_get b (rank OR kR)) (\<lambda>rook.
              tryCastle b out (createCastle sp idx (rank OR 6) rook (rank OR kR) (rank OR 5) pr))
          else Some (b, out)) = Some (b1, out1)"
    and qs: "(if qR AND 8 = 0 then
            Option.bind (Board_get b1 (rank OR qR)) (\<lambda>rook.
              tryCastle b1 out1 (createCastle sp idx (rank OR 2) rook (rank OR qR) (rank OR 3) pr))
          else Some (b1, out1)) = Some (b', out')"
    unfolding findKingCastles_def Let_def kR_def qR_def rank_def
    by (auto simp: bind_eq_Some_conv cong: if_cong)
  have cc: "\<And>t rook rf rt. what (createCastle sp idx t rook rf rt pr) = sp
      \<and> from' (createCastle sp idx t rook rf rt pr) = idx
      \<and> promote (createCastle sp idx t rook rf rt pr) = 0"
    by (simp add: createCastle_def createFullMove_def)
  have g1: "gen_ok b sp idx out b1 out1"
  proof (cases "kR AND 8 = 0")
    case True
    with ks obtain rook where
      "tryCastle b out (createCastle sp idx (rank OR 6) rook (rank OR kR) (rank OR 5) pr) = Some (b1, out1)"
      by (auto simp: bind_eq_Some_conv)
    then show ?thesis using tryCastle_gen_ok[OF w _ _ _ _ k] cc by blast
  next
    case False
    with ks have "b1 = b" "out1 = out" by simp_all
    then show ?thesis using w by (simp add: gen_ok_refl)
  qed
  have w1: "wfb b1" by (rule gen_ok_wfb[OF g1])
  have "gen_ok b1 sp idx out1 b' out'"
  proof (cases "qR AND 8 = 0")
    case True
    with qs obtain rook where
      "tryCastle b1 out1 (createCastle sp idx (rank OR 2) rook (rank OR qR) (rank OR 3) pr) = Some (b', out')"
      by (auto simp: bind_eq_Some_conv)
    then show ?thesis using tryCastle_gen_ok[OF w1 _ _ _ _ k] cc by blast
  next
    case False
    with qs have "b' = b1" "out' = out1" by simp_all
    then show ?thesis using w1 by (simp add: gen_ok_refl)
  qed
  with g1 show ?thesis by (rule gen_ok_trans)
qed

lemma castle_checked_core: "same_core L L' \<Longrightarrow> castle_checked L m = castle_checked L' m"
  unfolding castle_checked_def using danger_core[OF castle_probe_core, of L L' m]
  by (simp add: same_core_def)

lemma cand_core: "same_core L L' \<Longrightarrow> cand L sp idx m = cand L' sp idx m"
  unfolding cand_def using castle_checked_core by blast

lemma push_result_core: "same_core L L' \<Longrightarrow> push_result L m = push_result L' m"
  unfolding push_result_def using danger_core[OF performMove_sets_core, of L L' m] by simp

lemma emitted_core: "same_core L L' \<Longrightarrow> emitted L sp idx m = emitted L' sp idx m"
  unfolding emitted_def using cand_core push_result_core by metis

lemma listValidMoves_Some:
  assumes w: "wfb b" and t: "listValidMoves b idx out = Some (b', out')"
  shows "frame b b' \<and> (\<exists>new. out' = out @ new \<and> (\<forall>m\<in>set new. piece_emitted (current b) idx m))"
proof -
  define sp where "sp = board (current b) ! nat idx"
  define pr where "pr = getPriorState b"
  from t have ia: "in_array idx" and ne: "sp \<noteq> SPACE_EMPTY"
    unfolding listValidMoves_def Let_def sp_def
    by (auto simp: Board_get_def bind_eq_Some_conv split: if_splits)
  from t ia ne obtain b2 b3 where
    s2: "Board_set (Board_save b) idx SPACE_EMPTY = Some b2"
    and g: "(if spaceGetType sp = PIECETYPE_BISHOP then findMoves b2 sp idx DIRS 4 8 8 out pr
          else if spaceGetType sp = PIECETYPE_ROOK then findMoves b2 sp idx DIRS 0 4 8 out pr
          else if spaceGetType sp = PIECETYPE_QUEEN then findMoves b2 sp idx DIRS 0 8 8 out pr
          else if spaceGetType sp = PIECETYPE_KNIGHT then findMoves b2 sp idx KNIGHT 0 8 1 out pr
          else if spaceGetType sp = PIECETYPE_KING then
            Option.bind (findMoves b2 sp idx DIRS 0 8 1 out pr)
              (\<lambda>(b', out1). findKingCastles b' sp idx out1 pr)
          else if spaceGetType sp = PIECETYPE_PAWN then pawnMoves b2 sp idx out pr
          else Some (b2, out)) = Some (b3, out')"
    and b': "b' = Board_restore b3"
    unfolding listValidMoves_def Let_def sp_def pr_def
    by (auto simp: Board_get_def bind_eq_Some_conv cong: if_cong)
  have ab: "above b (Board_save b)" by (rule save_above[OF w])
  have w1: "wfb (Board_save b)" by (rule above_wfb[OF ab])
  obtain X where X: "current (Board_save b) = copyLayer (current b) X"
    using current_save[OF w] by blast
  from s2 have b2: "b2 = set_current (Board_save b) (Layer_set (current (Board_save b)) idx SPACE_EMPTY)"
    by (simp add: Board_set_Some)
  have w2: "wfb b2" unfolding b2 using w1 by (simp add: wfb_def set_current_def)
  have c2: "current b2 = Layer_set (copyLayer (current b) X) idx SPACE_EMPTY"
    unfolding b2 current_set_current[OF w1] X by simp
  have ab2: "above b b2" unfolding b2 by (rule above_set_current[OF ab])
  have sc: "same_core (current b2) (Layer_set (current b) idx SPACE_EMPTY)"
    unfolding c2 by (rule Layer_set_core[OF same_core_copyLayer])
  have gk: "gen_ok b2 sp idx out b3 out'"
  proof -
    consider (bishop) "spaceGetType sp = PIECETYPE_BISHOP"
      | (rook) "spaceGetType sp \<noteq> PIECETYPE_BISHOP" "spaceGetType sp = PIECETYPE_ROOK"
      | (queen) "spaceGetType sp \<noteq> PIECETYPE_BISHOP" "spaceGetType sp \<noteq> PIECETYPE_ROOK"
          "spaceGetType sp = PIECETYPE_QUEEN"
      | (knight) "spaceGetType sp \<noteq> PIECETYPE_BISHOP" "spaceGetType sp \<noteq> PIECETYPE_ROOK"
          "spaceGetType sp \<noteq> PIECETYPE_QUEEN" "spaceGetType sp = PIECETYPE_KNIGHT"
      | (king) "spaceGetType sp \<noteq> PIECETYPE_BISHOP" "spaceGetType sp \<noteq> PIECETYPE_ROOK"
          "spaceGetType sp \<noteq> PIECETYPE_QUEEN" "spaceGetType sp \<noteq> PIECETYPE_KNIGHT"
          "spaceGetType sp = PIECETYPE_KING"
      | (pawn) "spaceGetType sp \<noteq> PIECETYPE_BISHOP" "spaceGetType sp \<noteq> PIECETYPE_ROOK"
          "spaceGetType sp \<noteq> PIECETYPE_QUEEN" "spaceGetType sp \<noteq> PIECETYPE_KNIGHT"
          "spaceGetType sp \<noteq> PIECETYPE_KING" "spaceGetType sp = PIECETYPE_PAWN"
      | (none) "spaceGetType sp \<noteq> PIECETYPE_BISHOP" "spaceGetType sp \<noteq> PIECETYPE_ROOK"
          "spaceGetType sp \<noteq> PIECETYPE_QUEEN" "spaceGetType sp \<noteq> PIECETYPE_KNIGHT"
          "spaceGetType sp \<noteq> PIECETYPE_KING" "spaceGetType sp \<noteq> PIECETYPE_PAWN"
      by blast
    then show ?thesis
    proof cases
      case bishop
      with g show ?thesis using findMoves_gen_ok[OF w2] by simp
    next
      case rook
      with g show ?thesis using findMoves_gen_ok[OF w2] by simp
    next
      case queen
      with g show ?thesis using findMoves_gen_ok[OF w2] by simp
    next
      case knight
      with g show ?thesis using findMoves_gen_ok[OF w2] by simp
    next
      case king
      with g obtain b4 out1 where f: "findMoves b2 sp idx DIRS 0 8 1 out pr = Some (b4, out1)"
        and kc: "findKingCastles b4 sp idx out1 pr = Some (b3, out')"
        by (auto simp: bind_eq_Some_conv)
      have g1: "gen_ok b2 sp idx out b4 out1" by (rule findMoves_gen_ok[OF w2 f])
      have "gen_ok b4 sp idx out1 b3 out'"
        by (rule findKingCastles_gen_ok[OF gen_ok_wfb[OF g1] kc king(5)])
      with g1 show ?thesis by (rule gen_ok_trans)
    next
      case pawn
      with g show ?thesis using pawnMoves_gen_ok[OF w2] by simp
    next
      case none
      with g have "b3 = b2" "out' = out" by simp_all
      then show ?thesis using w2 by (simp add: gen_ok_refl)
    qed
  qed
  from gk obtain new where f23: "frame b2 b3" and o: "out' = out @ new"
    and e: "\<forall>m\<in>set new. emitted (current b2) sp idx m" unfolding gen_ok_def by blast
  have "above b b3" by (rule above_frame[OF ab2 f23])
  then have fr: "frame b b'" unfolding b' by (rule above_restore[OF _ w])
  have "\<forall>m\<in>set new. piece_emitted (current b) idx m"
    unfolding piece_emitted_def using e ia ne emitted_core[OF sc] unfolding sp_def by simp
  with fr o show ?thesis by blast
qed

lemma listAll_loop_Some:
  "wfb b \<Longrightarrow> listAll_loop b color xs out = Some (b', out') \<Longrightarrow>
     frame b b' \<and> (\<exists>new. out' = out @ new \<and> (\<forall>m\<in>set new. \<exists>idx\<in>set xs.
        spaceGetColor (board (current b) ! nat idx) = color \<and> piece_emitted (current b) idx m))"
proof (induction xs arbitrary: b out)
  case Nil
  then show ?case by (simp add: frame_refl)
next
  case (Cons a xs)
  from Cons.prems(2) obtain sp where g: "Board_get b a = Some sp"
    and r: "(if spaceGetColor sp = color then
               Option.bind (listValidMoves b a out) (\<lambda>(b', out'). listAll_loop b' color xs out')
             else listAll_loop b color xs out) = Some (b', out')"
    by (auto simp: bind_eq_Some_conv)
  from g have sp: "sp = board (current b) ! nat a" by (auto simp: Board_get_def split: if_splits)
  show ?case
  proof (cases "spaceGetColor sp = color")
    case True
    with r obtain b1 out1 where l: "listValidMoves b a out = Some (b1, out1)"
      and rest: "listAll_loop b1 color xs out1 = Some (b', out')"
      by (auto simp: bind_eq_Some_conv)
    from listValidMoves_Some[OF Cons.prems(1) l] obtain n1 where f1: "frame b b1"
      and o1: "out1 = out @ n1" and e1: "\<forall>m\<in>set n1. piece_emitted (current b) a m" by blast
    have c1: "current b1 = current b" by (rule frame_current[OF f1])
    from Cons.IH[OF _ rest] frame_wfb[OF f1] obtain n2 where f2: "frame b1 b'"
      and o2: "out' = out1 @ n2"
      and e2: "\<forall>m\<in>set n2. \<exists>idx\<in>set xs.
        spaceGetColor (board (current b1) ! nat idx) = color \<and> piece_emitted (current b1) idx m"
      by blast
    have "out' = out @ (n1 @ n2)" using o1 o2 by simp
    moreover have "\<forall>m\<in>set (n1 @ n2). \<exists>idx\<in>set (a # xs).
        spaceGetColor (board (current b) ! nat idx) = color \<and> piece_emitted (current b) idx m"
      using e1 e2 True sp unfolding c1 by auto
    ultimately show ?thesis using frame_trans[OF f1 f2] by blast
  next
    case False
    with r have "listAll_loop b color xs out = Some (b', out')" by simp
    from Cons.IH[OF Cons.prems(1) this] show ?thesis by auto
  qed
qed

lemma listAllValidMoves_uncached:
  assumes w: "wfb b" and n: "moveCache (current b) color = None"
    and t: "listAllValidMoves b color = Some (b', ms)"
  shows "\<forall>m\<in>set ms. \<exists>idx\<in>set (pieceList (current b)).
        spaceGetColor (board (current b) ! nat idx) = color \<and> piece_emitted (current b) idx m"
    and "same_core (current b') (current b)" and "layerIdx b' = layerIdx b"
proof -
  from t n obtain b1 where l: "listAll_loop b color (pieceList (current b)) [] = Some (b1, ms)"
    and b': "b' = set_current b1 ((current b1)\<lparr>moveCache := (moveCache (current b1))(color := Some ms)\<rparr>)"
    unfolding listAllValidMoves_def by (auto simp: bind_eq_Some_conv)
  from listAll_loop_Some[OF w l] have f: "frame b b1"
    and e: "\<forall>m\<in>set ms. \<exists>idx\<in>set (pieceList (current b)).
        spaceGetColor (board (current b) ! nat idx) = color \<and> piece_emitted (current b) idx m"
    by auto
  show "\<forall>m\<in>set ms. \<exists>idx\<in>set (pieceList (current b)).
        spaceGetColor (board (current b) ! nat idx) = color \<and> piece_emitted (current b) idx m"
    by (rule e)
  have w1: "wfb b1" using frame_wfb[OF f] by blast
  show "same_core (current b') (current b)"
    unfolding b' current_set_current[OF w1] frame_current[OF f] by (simp add: same_core_def)
  show "layerIdx b' = layerIdx b" unfolding b' using f by (simp add: set_current_def frame_def)
qed

lemma indexOf_mem:
  "x \<in> set xs \<Longrightarrow> 0 \<le> indexOf xs x \<and> indexOf xs x < int (length xs) \<and> xs ! nat (indexOf xs x) = x"
proof (induction xs)
  case Nil
  then show ?case by simp
next
  case (Cons a xs)
  show ?case
  proof (cases "a = x")
    case True
    then show ?thesis by simp
  next
    case False
    with Cons.prems have "x \<in> set xs" by simp
    from Cons.IH[OF this] False show ?thesis by (simp add: Let_def nat_add_distrib)
  qed
qed

lemma indexOf_not_mem: "x \<notin> set xs \<Longrightarrow> indexOf xs x = -1"
  by (induction xs) (auto simp: Let_def)

lemma pieceList_remove_mem:
  assumes d: "distinct xs" and m: "x \<in> set xs"
  shows "set (pieceList_remove xs x) = set xs - {x} \<and> distinct (pieceList_remove xs x)"
proof -
  define p where "p = nat (indexOf xs x)"
  define n where "n = length xs"
  from indexOf_mem[OF m] have p: "p < n" "xs ! p = x" "indexOf xs x = int p"
    unfolding p_def n_def by auto
  have n0: "0 < n" using p by simp
  have xs: "xs = butlast xs @ [last xs]" using n0 unfolding n_def by simp
  have lst: "last xs = xs ! (n - 1)" using n0 unfolding n_def by (simp add: last_conv_nth)
  show ?thesis
  proof (cases "p = n - 1")
    case True
    then have r: "pieceList_remove xs x = butlast xs"
      unfolding pieceList_remove_def Let_def using p n0 unfolding n_def by simp
    have "last xs = x" using lst True p by simp
    then have "set (butlast xs) = set xs - {x}"
      using d xs by (metis Diff_insert_absorb Un_insert_right append_Nil2 distinct_append
          empty_set insert_disjoint(1) list.simps(15) set_append distinct.simps(2) disjoint_iff)
    then show ?thesis unfolding r using d by (simp add: distinct_butlast)
  next
    case False
    then have pl: "p < n - 1" using p by simp
    have nl: "nat (int (length xs) - 1) = n - 1" unfolding n_def by simp
    have ne: "int p \<noteq> int (length xs) - 1" using pl unfolding n_def by linarith
    have "pieceList_remove xs x = butlast (xs[n - 1 := x, p := xs ! (n - 1)])"
      unfolding pieceList_remove_def Let_def p(3) nl using ne by simp
    also have "\<dots> = (butlast (xs[n - 1 := x]))[p := xs ! (n - 1)]"
      using pl unfolding n_def by (simp add: butlast_list_update)
    also have "butlast (xs[n - 1 := x]) = butlast xs"
      unfolding n_def by (simp add: butlast_list_update)
    finally have r: "pieceList_remove xs x = (butlast xs)[p := last xs]" using lst by simp
    have lb: "length (butlast xs) = n - 1" unfolding n_def by simp
    have bx: "butlast xs ! p = x" using pl p by (simp add: nth_butlast n_def)
    have db: "distinct (butlast xs)" using d by (rule distinct_butlast)
    have ln: "last xs \<notin> set (butlast xs)" using d xs by (metis distinct_append
          disjoint_iff list.set_intros(1))
    have s1: "set ((butlast xs)[p := last xs]) = insert (last xs) (set (butlast xs) - {x})"
      using set_update_distinct[OF db, of p "last xs"] pl lb bx by simp
    have sx: "set xs = insert (last xs) (set (butlast xs))" using xs
      by (metis Un_insert_right append_Nil2 list.simps(15) set_append)
    have "last xs \<noteq> x" using ln bx pl lb by (metis nth_mem)
    then have "set ((butlast xs)[p := last xs]) = set xs - {x}" using s1 sx ln by auto
    moreover have "distinct ((butlast xs)[p := last xs])"
      using db ln by (simp add: distinct_list_update)
    ultimately show ?thesis unfolding r by simp
  qed
qed

lemma in_array_nat: "in_array i \<Longrightarrow> nat i < 128 \<and> 0 \<le> i"
  unfolding in_array_alt by linarith

lemma in_array_nat_eq: "in_array i \<Longrightarrow> in_array j \<Longrightarrow> (nat j = nat i) = (j = i)"
  by (auto simp: in_array_alt)

lemma board_update_nth:
  assumes "length bd = 128" "in_array i" "in_array j"
  shows "bd[nat i := v] ! nat j = (if j = i then v else bd ! nat j)"
proof (cases "j = i")
  case True
  then show ?thesis using assms(1) in_array_nat[OF assms(2)] by simp
next
  case False
  then have "nat i \<noteq> nat j" using in_array_nat_eq[OF assms(2,3)] by auto
  then show ?thesis using False by simp
qed

lemma Layer_set_wf:
  assumes w: "wf_layer L" and i: "in_array i" and s: "s = SPACE_EMPTY \<or> s mod 256 \<noteq> 0"
  shows "wf_layer (Layer_set L i s)"
proof -
  from w have len: "length (board L) = 128" and byt: "\<forall>x\<in>set (board L). 0 \<le> x \<and> x < 256"
    and d: "distinct (pieceList L)"
    and st: "set (pieceList L) = {j. in_array j \<and> board L ! nat j \<noteq> SPACE_EMPTY}"
    unfolding wf_layer_def by blast+
  define bd' where "bd' = (board L)[nat i := s mod 256]"
  have b1: "length bd' = 128" unfolding bd'_def using len by simp
  have b2: "\<forall>x\<in>set bd'. 0 \<le> x \<and> x < 256"
  proof
    fix x assume "x \<in> set bd'"
    then have "x = s mod 256 \<or> x \<in> set (board L)"
      unfolding bd'_def using set_update_subset_insert[of "board L" "nat i" "s mod 256"] by auto
    then show "0 \<le> x \<and> x < 256" using byt by auto
  qed
  have nth: "\<And>j. in_array j \<Longrightarrow> bd' ! nat j = (if j = i then s mod 256 else board L ! nat j)"
    unfolding bd'_def by (rule board_update_nth[OF len i])
  have z: "s = SPACE_EMPTY \<Longrightarrow> s mod 256 = 0" by (simp add: SPACE_EMPTY_def)
  have nz: "s \<noteq> SPACE_EMPTY \<Longrightarrow> s mod 256 \<noteq> 0" using s by simp
  have pl: "distinct (pieceList (Layer_set L i s))
     \<and> set (pieceList (Layer_set L i s)) = {j. in_array j \<and> bd' ! nat j \<noteq> SPACE_EMPTY}"
  proof -
    consider (add) "board L ! nat i = SPACE_EMPTY" "s \<noteq> SPACE_EMPTY"
      | (rem) "board L ! nat i \<noteq> SPACE_EMPTY" "s = SPACE_EMPTY"
      | (ee) "board L ! nat i = SPACE_EMPTY" "s = SPACE_EMPTY"
      | (ff) "board L ! nat i \<noteq> SPACE_EMPTY" "s \<noteq> SPACE_EMPTY" by blast
    then show ?thesis
    proof cases
      case add
      then have p: "pieceList (Layer_set L i s) = pieceList L @ [i]"
        by (simp add: Layer_set_pieceList)
      have ni: "i \<notin> set (pieceList L)" using st add(1) by simp
      have "{j. in_array j \<and> bd' ! nat j \<noteq> SPACE_EMPTY} = insert i (set (pieceList L))"
        using nth i nz[OF add(2)] st by (auto simp: SPACE_EMPTY_def split: if_splits)
      then show ?thesis unfolding p using d ni by simp
    next
      case rem
      then have p: "pieceList (Layer_set L i s) = pieceList_remove (pieceList L) i"
        by (simp add: Layer_set_pieceList)
      have mi: "i \<in> set (pieceList L)" using st rem(1) i by simp
      have "{j. in_array j \<and> bd' ! nat j \<noteq> SPACE_EMPTY} = set (pieceList L) - {i}"
        using nth i z[OF rem(2)] st by (auto simp: SPACE_EMPTY_def split: if_splits)
      then show ?thesis unfolding p using pieceList_remove_mem[OF d mi] by simp
    next
      case ee
      then have p: "pieceList (Layer_set L i s) = pieceList L"
        by (simp add: Layer_set_pieceList)
      have "{j. in_array j \<and> bd' ! nat j \<noteq> SPACE_EMPTY} = set (pieceList L)"
        using nth i z[OF ee(2)] st ee(1) by (auto simp: SPACE_EMPTY_def split: if_splits)
      then show ?thesis unfolding p using d by simp
    next
      case ff
      then have p: "pieceList (Layer_set L i s) = pieceList L"
        by (simp add: Layer_set_pieceList)
      have "{j. in_array j \<and> bd' ! nat j \<noteq> SPACE_EMPTY} = set (pieceList L)"
        using nth i nz[OF ff(2)] st ff(1) by (auto simp: SPACE_EMPTY_def split: if_splits)
      then show ?thesis unfolding p using d by simp
    qed
  qed
  show ?thesis
    unfolding wf_layer_def Layer_set_board using b1 b2 pl unfolding bd'_def by simp
qed

lemma or16_bit: "bit ((x::int) OR 16) 4"
proof -
  have "bit (16::int) 4" by (simp add: bit_iff_odd)
  then show ?thesis by (simp add: bit_or_iff)
qed

lemma or16_mod: "((x::int) OR 16) mod 256 \<noteq> 0"
proof
  assume "(x OR 16) mod 256 = 0"
  then have "take_bit 8 (x OR 16) = 0" by (simp add: take_bit_eq_mod)
  then have "take_bit 8 x OR 16 = 0" by simp
  then show False using or16_bit[of "take_bit 8 x"] by simp
qed

lemma or16_nz: "(x::int) OR 16 \<noteq> 0"
  using or16_mod[of x] by auto

lemma encode_moved_mod: "encodePieceSpace p c True mod 256 \<noteq> 0"
  unfolding encodePieceSpace_def using or16_mod[of "p OR c"] by (simp add: or.assoc)

lemma encode_moved_nz: "encodePieceSpace p c True \<noteq> 0"
  using encode_moved_mod[of p c] by auto

lemma Layer_set_exact: "exact L \<Longrightarrow> exact (Layer_set L i s)"
proof -
  assume e: "exact L"
  show ?thesis
  proof (cases "s = SPACE_EMPTY \<and> board L ! nat i = SPACE_EMPTY")
    case True
    then have "(board L)[nat i := s mod 256] = board L"
      using list_update_id[of "board L" "nat i"] by (simp add: SPACE_EMPTY_def)
    then show ?thesis using e True unfolding exact_def Layer_set_attacks Layer_set_board by simp
  next
    case False
    then show ?thesis unfolding exact_def Layer_set_attacks Layer_set_board by auto
  qed
qed

lemma Layer_set_exact_nz: "s \<noteq> SPACE_EMPTY \<Longrightarrow> exact (Layer_set L i s)"
  unfolding exact_def Layer_set_attacks Layer_set_board by simp

lemma performMove_sets_board: "board (performMove_sets L m) = perform_board (board L) m"
  unfolding performMove_sets_def perform_board_def moved_board_def Let_def
  by (simp add: Layer_set_board SPACE_EMPTY_def)

lemma performMove_sets_cases:
  obtains L3 where "L3 = Layer_set (Layer_set (if capture m \<noteq> 0 then Layer_set L (captureCoord m) SPACE_EMPTY else L)
                       (from' m) SPACE_EMPTY) (to' m) (what m OR 16)"
    and "performMove_sets L m =
      (if castleRook m \<noteq> 0 then
         (if promote m \<noteq> 0
          then Layer_set (Layer_set (Layer_set L3 (castleRookFrom m) SPACE_EMPTY) (castleRookTo m)
                       (castleRook m OR 16)) (to' m)
                 (encodePieceSpace (promote m) (spaceGetColor (what m)) True)
          else Layer_set (Layer_set L3 (castleRookFrom m) SPACE_EMPTY) (castleRookTo m)
                       (castleRook m OR 16))
       else
         (if promote m \<noteq> 0
          then Layer_set L3 (to' m) (encodePieceSpace (promote m) (spaceGetColor (what m)) True)
          else L3))"
  unfolding performMove_sets_def Let_def by simp

lemma performMove_sets_exact: "exact (performMove_sets L m)"
proof -
  obtain L3 where L3: "L3 = Layer_set (Layer_set (if capture m \<noteq> 0 then Layer_set L (captureCoord m) SPACE_EMPTY else L)
                       (from' m) SPACE_EMPTY) (to' m) (what m OR 16)"
    and r: "performMove_sets L m =
      (if castleRook m \<noteq> 0 then
         (if promote m \<noteq> 0
          then Layer_set (Layer_set (Layer_set L3 (castleRookFrom m) SPACE_EMPTY) (castleRookTo m)
                       (castleRook m OR 16)) (to' m)
                 (encodePieceSpace (promote m) (spaceGetColor (what m)) True)
          else Layer_set (Layer_set L3 (castleRookFrom m) SPACE_EMPTY) (castleRookTo m)
                       (castleRook m OR 16))
       else
         (if promote m \<noteq> 0
          then Layer_set L3 (to' m) (encodePieceSpace (promote m) (spaceGetColor (what m)) True)
          else L3))"
    by (rule performMove_sets_cases)
  have e3: "exact L3" unfolding L3 by (rule Layer_set_exact_nz) (simp add: or16_nz SPACE_EMPTY_def)
  show ?thesis unfolding r using e3 by (simp add: Layer_set_exact)
qed

lemma performMove_sets_wf:
  assumes w: "wf_layer L" and sq: "move_squares_ok m"
  shows "wf_layer (performMove_sets L m)"
proof -
  obtain L3 where L3: "L3 = Layer_set (Layer_set (if capture m \<noteq> 0 then Layer_set L (captureCoord m) SPACE_EMPTY else L)
                       (from' m) SPACE_EMPTY) (to' m) (what m OR 16)"
    and r: "performMove_sets L m =
      (if castleRook m \<noteq> 0 then
         (if promote m \<noteq> 0
          then Layer_set (Layer_set (Layer_set L3 (castleRookFrom m) SPACE_EMPTY) (castleRookTo m)
                       (castleRook m OR 16)) (to' m)
                 (encodePieceSpace (promote m) (spaceGetColor (what m)) True)
          else Layer_set (Layer_set L3 (castleRookFrom m) SPACE_EMPTY) (castleRookTo m)
                       (castleRook m OR 16))
       else
         (if promote m \<noteq> 0
          then Layer_set L3 (to' m) (encodePieceSpace (promote m) (spaceGetColor (what m)) True)
          else L3))"
    by (rule performMove_sets_cases)
  from sq have f: "in_array (from' m)" and t: "in_array (to' m)"
    and c: "capture m \<noteq> 0 \<Longrightarrow> in_array (captureCoord m)"
    and k: "castleRook m \<noteq> 0 \<Longrightarrow> in_array (castleRookFrom m) \<and> in_array (castleRookTo m)"
    unfolding move_squares_ok_def by blast+
  have w1: "wf_layer (if capture m \<noteq> 0 then Layer_set L (captureCoord m) SPACE_EMPTY else L)"
    using w c by (simp add: Layer_set_wf)
  have w2: "wf_layer (Layer_set (if capture m \<noteq> 0 then Layer_set L (captureCoord m) SPACE_EMPTY else L)
                       (from' m) SPACE_EMPTY)"
    by (rule Layer_set_wf[OF w1 f]) simp
  have w3: "wf_layer L3" unfolding L3 by (rule Layer_set_wf[OF w2 t]) (simp add: or16_mod)
  have w4: "castleRook m \<noteq> 0 \<Longrightarrow>
      wf_layer (Layer_set (Layer_set L3 (castleRookFrom m) SPACE_EMPTY) (castleRookTo m) (castleRook m OR 16))"
    using k w3 by (simp add: Layer_set_wf or16_mod)
  show ?thesis unfolding r using w3 w4 t by (simp add: Layer_set_wf encode_moved_mod)
qed

lemma ray_reaches_cong:
  "\<forall>i. (bd ! i = 0) = (bd' ! i = 0) \<Longrightarrow> ray_reaches bd n s d x = ray_reaches bd' n s d x"
  by (induction n arbitrary: s) (simp_all add: Let_def SPACE_EMPTY_def)

lemma piece_attacks_cong:
  assumes "\<forall>i. (bd ! i = 0) = (bd' ! i = 0)" "bd ! nat s = bd' ! nat s"
  shows "piece_attacks bd s x = piece_attacks bd' s x"
  unfolding piece_attacks_def Let_def assms(2) ray_reaches_cong[OF assms(1)] by (rule refl)

lemma attack_count_cong:
  assumes e: "\<forall>i. (bd ! i = 0) = (bd' ! i = 0)"
    and c: "\<forall>i. spaceGetColor (bd ! i) = col \<or> spaceGetColor (bd' ! i) = col \<longrightarrow> bd ! i = bd' ! i"
  shows "attack_count bd x col = attack_count bd' x col"
proof -
  have "\<And>s. (bd ! nat s \<noteq> SPACE_EMPTY \<and> spaceGetColor (bd ! nat s) = col \<and> piece_attacks bd s x)
      = (bd' ! nat s \<noteq> SPACE_EMPTY \<and> spaceGetColor (bd' ! nat s) = col \<and> piece_attacks bd' s x)"
    using c piece_attacks_cong[OF e] by (metis (no_types, lifting))
  then show ?thesis unfolding attack_count_def by simp
qed

lemma attack_map_nth:
  "k < 256 \<Longrightarrow> attack_map bd ! k =
     attack_count bd (int (k div 2)) (if even k then COLOR_WHITE else COLOR_BLACK)"
  unfolding attack_map_def by simp

lemma attacks_exact_nth:
  assumes "exact L" "in_array idx"
  shows "attacks L ! nat (2 * idx + (if 8 - c = COLOR_WHITE then 0 else 1))
     = attack_count (board L) idx (enemy_of c)"
proof -
  from in_array_nat[OF assms(2)] have b: "0 \<le> idx" "idx < 128" by auto
  show ?thesis
  proof (cases "8 - c = COLOR_WHITE")
    case True
    have k: "nat (2 * idx) < 256" "nat (2 * idx) div 2 = nat idx" "even (nat (2 * idx))"
      using b by (auto simp: nat_mult_distrib even_nat_iff)
    show ?thesis using assms(1) b True unfolding exact_def enemy_of_def
      by (simp add: attack_map_nth[OF k(1)] k)
  next
    case False
    have k: "nat (2 * idx + 1) < 256" "nat (2 * idx + 1) div 2 = nat idx" "odd (nat (2 * idx + 1))"
      using b by (auto simp: nat_add_distrib nat_mult_distrib even_nat_iff)
    show ?thesis using assms(1) b False unfolding exact_def enemy_of_def
      by (simp add: attack_map_nth[OF k(1)] k)
  qed
qed

lemma king_nonzero: "spaceGetType x = PIECETYPE_KING \<Longrightarrow> x \<noteq> SPACE_EMPTY"
  by (auto simp: spaceGetType_def PIECETYPE_KING_def SPACE_EMPTY_def)

lemma danger_board:
  assumes w: "wf_layer L" and e: "exact L"
  shows "danger L c = board_danger (board L) c"
proof -
  from w have st: "set (pieceList L) = {j. in_array j \<and> board L ! nat j \<noteq> SPACE_EMPTY}"
    unfolding wf_layer_def by blast
  show ?thesis unfolding danger_def board_danger_def st
    using attacks_exact_nth[OF e] king_nonzero by auto
qed

lemma b8: "bit (8::int) n \<longleftrightarrow> n = 3"
proof -
  have "bit ((2::int) ^ 3) n \<longleftrightarrow> n = 3" by (simp only: bit_exp_iff) (simp add: possible_bit_def)
  then show ?thesis by simp
qed
lemma and8_cases: "(x::int) AND 8 = 0 \<or> x AND 8 = 8"
proof (cases "bit x 3")
  case True
  have "x AND 8 = 8"
    by (rule bit_eqI) (use True in \<open>auto simp: bit_and_iff b8\<close>)
  then show ?thesis by simp
next
  case False
  then show ?thesis using and_exp_eq_0_iff_not_bit[of x 3] by simp
qed

lemma color_cases: "spaceGetColor x = COLOR_WHITE \<or> spaceGetColor x = COLOR_BLACK"
  unfolding spaceGetColor_def COLOR_WHITE_def COLOR_BLACK_def by (rule and8_cases)

lemma enemy_of_color: "enemy_of (spaceGetColor x) \<noteq> spaceGetColor x"
  using color_cases[of x] by (auto simp: enemy_of_def COLOR_WHITE_def COLOR_BLACK_def)

lemma promo_piece:
  assumes "t \<in> set PROMOTIONS" "c = COLOR_WHITE \<or> c = COLOR_BLACK"
  shows "spaceGetType (encodePieceSpace t c True mod 256) \<noteq> PIECETYPE_KING"
    and "spaceGetColor (encodePieceSpace t c True mod 256) = c"
    and "encodePieceSpace t c True mod 256 \<noteq> 0"
  using assms
  by (auto simp: PROMOTIONS_def encodePieceSpace_def spaceGetType_def spaceGetColor_def
      PIECETYPE_QUEEN_def PIECETYPE_ROOK_def PIECETYPE_KNIGHT_def PIECETYPE_BISHOP_def
      PIECETYPE_KING_def COLOR_WHITE_def COLOR_BLACK_def)

lemma moved_board_cleared:
  assumes "from' m = i"
  shows "moved_board (bd[nat i := 0]) m = moved_board bd m"
proof -
  have a: "bd[nat i := 0, nat i := 0] = bd[nat i := 0]" by simp
  have b: "bd[nat i := 0, nat (captureCoord m) := 0, nat i := 0] = bd[nat (captureCoord m) := 0, nat i := 0]"
    by (cases "nat (captureCoord m) = nat i") (simp_all add: list_update_swap)
  show ?thesis unfolding moved_board_def Let_def assms[symmetric]
    using a b unfolding assms[symmetric] by (cases "capture m \<noteq> 0") simp_all
qed

lemma perform_board_cleared:
  "from' m = i \<Longrightarrow> perform_board (bd[nat i := 0]) m = perform_board bd m"
  unfolding perform_board_def by (simp add: moved_board_cleared)

lemma length_moved_board: "length (moved_board bd m) = length bd"
  unfolding moved_board_def Let_def by simp

lemma moved_board_promo: "moved_board bd (moveToPromotion m t) = moved_board bd m"
  unfolding moved_board_def moveToPromotion_def Let_def by simp

lemma perform_board_promo:
  "t \<noteq> 0 \<Longrightarrow> perform_board bd (moveToPromotion m t)
     = (moved_board bd m)[nat (to' m) := encodePieceSpace t (spaceGetColor (what m)) True mod 256]"
  unfolding perform_board_def moved_board_promo by (simp add: moveToPromotion_def)

lemma board_danger_promo:
  assumes len: "length B = 128" and t: "in_array t"
    and v: "v \<noteq> 0" "spaceGetType v \<noteq> PIECETYPE_KING" "spaceGetColor v = c"
    and v': "v' \<noteq> 0" "spaceGetType v' \<noteq> PIECETYPE_KING" "spaceGetColor v' = c"
    and en: "enemy_of c \<noteq> c"
  shows "board_danger (B[nat t := v]) c = board_danger (B[nat t := v']) c"
proof -
  have lt: "nat t < length B" using len in_array_nat[OF t] by simp
  have nth: "\<And>i x. B[nat t := x] ! i = (if i = nat t then x else B ! i)"
    using lt by (simp add: nth_list_update)
  have e: "\<forall>i. (B[nat t := v] ! i = 0) = (B[nat t := v'] ! i = 0)"
    using v(1) v'(1) by (simp add: nth)
  have c: "\<forall>i. spaceGetColor (B[nat t := v] ! i) = enemy_of c
              \<or> spaceGetColor (B[nat t := v'] ! i) = enemy_of c
           \<longrightarrow> B[nat t := v] ! i = B[nat t := v'] ! i"
    using v(3) v'(3) en by (simp add: nth)
  have ac: "\<And>x. attack_count (B[nat t := v]) x (enemy_of c) = attack_count (B[nat t := v']) x (enemy_of c)"
    by (rule attack_count_cong[OF e c])
  have k: "\<And>idx. (spaceGetType (B[nat t := v] ! nat idx) = PIECETYPE_KING
                    \<and> spaceGetColor (B[nat t := v] ! nat idx) = c)
      = (spaceGetType (B[nat t := v'] ! nat idx) = PIECETYPE_KING
                    \<and> spaceGetColor (B[nat t := v'] ! nat idx) = c)"
    using v(2) v'(2) by (simp add: nth)
  show ?thesis unfolding board_danger_def ac using k by blast
qed

lemma move_squares_ok_promo: "move_squares_ok (moveToPromotion m t) = move_squares_ok m"
  by (simp add: move_squares_ok_def moveToPromotion_def)

lemma danger_performed:
  assumes "wf_layer L" "move_squares_ok m"
  shows "danger (performMove_sets L m) c = board_danger (perform_board (board L) m) c"
  using danger_board[OF performMove_sets_wf[OF assms] performMove_sets_exact]
  by (simp add: performMove_sets_board)

lemma emitted_safe:
  assumes w: "wf_layer L" and ia: "in_array idx"
    and e: "emitted (Layer_set L idx SPACE_EMPTY) sp idx m"
  shows "move_squares_ok m \<and> \<not> danger (performMove_sets L m) (spaceGetColor sp)"
proof -
  define Lc where "Lc = Layer_set L idx SPACE_EMPTY"
  define c where "c = spaceGetColor sp"
  define bd where "bd = board L"
  from e obtain m0 where cd: "cand Lc sp idx m0" and sq: "move_squares_ok m0"
    and mem: "m \<in> set (push_result Lc m0)" unfolding emitted_def Lc_def by blast
  from cd have wh: "what m0 = sp" and fr: "from' m0 = idx"
    and pr: "promote m0 = 0 \<or> promote m0 = PIECETYPE_QUEEN" unfolding cand_def by blast+
  have wc: "wf_layer Lc" unfolding Lc_def by (rule Layer_set_wf[OF w ia]) simp
  have bc: "board Lc = bd[nat idx := 0]"
    unfolding Lc_def bd_def by (simp add: Layer_set_board SPACE_EMPTY_def)
  from mem have nd: "\<not> danger (performMove_sets Lc m0) c"
    unfolding push_result_def c_def wh by (auto split: if_splits)
  have "danger (performMove_sets Lc m0) c = board_danger (perform_board bd m0) c"
    unfolding danger_performed[OF wc sq] bc perform_board_cleared[OF fr] by (rule refl)
  with nd have safe0: "\<not> board_danger (perform_board bd m0) c" by simp
  have len: "length (moved_board bd m0) = 128"
    using w unfolding length_moved_board bd_def wf_layer_def by blast
  have t0: "in_array (to' m0)" using sq unfolding move_squares_ok_def by blast
  have cc: "c = COLOR_WHITE \<or> c = COLOR_BLACK" unfolding c_def by (rule color_cases)
  have en: "enemy_of c \<noteq> c" unfolding c_def by (rule enemy_of_color)
  show ?thesis
  proof (cases "promote m0 = 0")
    case True
    with mem nd have "m = m0" unfolding push_result_def c_def wh by (auto split: if_splits)
    then show ?thesis using sq safe0 danger_performed[OF w sq] unfolding c_def bd_def by simp
  next
    case False
    with pr have q: "promote m0 = PIECETYPE_QUEEN" by simp
    from mem nd False obtain t where t: "t \<in> set PROMOTIONS" and m: "m = moveToPromotion m0 t"
      unfolding push_result_def c_def wh by (auto split: if_splits)
    have tn: "t \<noteq> 0" using t by (auto simp: PROMOTIONS_def PIECETYPE_QUEEN_def PIECETYPE_ROOK_def
          PIECETYPE_KNIGHT_def PIECETYPE_BISHOP_def)
    have qin: "PIECETYPE_QUEEN \<in> set PROMOTIONS" by (simp add: PROMOTIONS_def)
    have sqm: "move_squares_ok m" unfolding m move_squares_ok_promo by (rule sq)
    have p0: "perform_board bd m0 = (moved_board bd m0)
        [nat (to' m0) := encodePieceSpace PIECETYPE_QUEEN c True mod 256]"
      unfolding perform_board_def c_def using False q wh by simp
    have pm: "perform_board bd m = (moved_board bd m0)
        [nat (to' m0) := encodePieceSpace t c True mod 256]"
      unfolding m perform_board_promo[OF tn] c_def wh by (rule refl)
    have "board_danger (perform_board bd m) c = board_danger (perform_board bd m0) c"
      unfolding p0 pm
      by (rule board_danger_promo[OF len t0 promo_piece(3,1,2)[OF t cc] promo_piece(3,1,2)[OF qin cc] en])
    with safe0 have "\<not> board_danger (perform_board bd m) c" by simp
    then show ?thesis using sqm danger_performed[OF w sqm] unfolding c_def bd_def by simp
  qed
qed

text \<open>
  Claim C2. Every move that \<open>listAllValidMoves(b, c)\<close> computes (the cache holds no list
  for \<open>c\<close>) can be applied to the position, and after it is applied \<open>kingInDanger\<close> for
  \<open>c\<close> returns false: no king of color \<open>c\<close> stands on a square whose counter of the
  other color is positive.
\<close>

theorem listAllValidMoves_king_safe:
  assumes wb: "wfb b" and wl: "wf_layer (current b)"
    and nc: "moveCache (current b) c = None"
    and l: "listAllValidMoves b c = Some (b', ms)" and mem: "m \<in> set ms"
  shows "\<exists>b2. performMove b m = Some b2 \<and> kingInDanger b2 c = Some False"
proof -
  from listAllValidMoves_uncached(1)[OF wb nc l] mem obtain idx where
    col: "spaceGetColor (board (current b) ! nat idx) = c"
    and pe: "piece_emitted (current b) idx m" by blast
  from pe have ia: "in_array idx"
    and e: "emitted (Layer_set (current b) idx SPACE_EMPTY) (board (current b) ! nat idx) idx m"
    unfolding piece_emitted_def by blast+
  from emitted_safe[OF wl ia e] col have sq: "move_squares_ok m"
    and nd: "\<not> danger (performMove_sets (current b) m) c" by simp_all
  from performMove_total[OF wb sq] obtain b2 where pm: "performMove b m = Some b2" by blast
  have sc: "same_core (current b2) (performMove_sets (current b) m)"
    by (rule performMove_current_core(1)[OF wb pm])
  have "wf_layer (performMove_sets (current b) m)" by (rule performMove_sets_wf[OF wl sq])
  then have "\<forall>i\<in>set (pieceList (current b2)). in_array i"
    using sc unfolding wf_layer_def same_core_def by simp
  then have "kingInDanger b2 c = Some (danger (current b2) c)" by (rule kingInDanger_total)
  also have "danger (current b2) c = False" using danger_core[OF sc] nd by simp
  finally show ?thesis using pm by blast
qed

subsection \<open>Running the code on a position\<close>

text \<open>
  The equations of the board's methods for a board and a layer that are written out,
  field by field: a run of the code on a given position rewrites with them, and with
  the definitions of the functions that call them.
\<close>

lemma current_rec: "current \<lparr>layerIdx = i, layers = ls\<rparr> = ls ! i"
  by (simp add: current_def)

lemma set_current_rec:
  "set_current \<lparr>layerIdx = i, layers = ls\<rparr> L = \<lparr>layerIdx = i, layers = ls[i := L]\<rparr>"
  by (simp add: set_current_def)

lemma Layer_set_rec:
  "Layer_set \<lparr>clock = c, moveNum = mn, ep = e, status = st, castles = cs, board = bd,
       attacks = at, turn = t, seen = sn, moveCache = mc, pieceList = pl\<rparr> idx sp =
     \<lparr>clock = c, moveNum = mn, ep = e, status = st, castles = cs,
      board = bd[nat idx := sp mod 256],
      attacks = (if sp \<noteq> 0 then attack_map (bd[nat idx := sp mod 256])
                 else if bd ! nat idx \<noteq> 0 then attack_map (bd[nat idx := 0]) else at),
      turn = t, seen = sn, moveCache = mc,
      pieceList = (if (bd ! nat idx = 0) \<noteq> (sp = 0)
                   then (if bd ! nat idx = 0 then pl @ [idx] else pieceList_remove pl idx)
                   else pl)\<rparr>"
  by (simp add: Layer_set_def Let_def SPACE_EMPTY_def attackMapAddPiece_def attackMapRemovePiece_def)

lemma Board_set_rec:
  "Board_set \<lparr>layerIdx = i, layers = ls\<rparr> idx sp =
     (if in_array idx then Some \<lparr>layerIdx = i, layers = ls[i := Layer_set (ls ! i) idx sp]\<rparr> else None)"
  by (simp add: Board_set_def set_current_def current_def)

lemma Board_save_rec:
  "Board_save \<lparr>layerIdx = i, layers = ls\<rparr> =
     (if Suc i = length ls
      then \<lparr>layerIdx = Suc i, layers = (ls @ [newLayer])[Suc i := copyLayer (ls ! i) newLayer]\<rparr>
      else \<lparr>layerIdx = Suc i, layers = ls[Suc i := copyLayer (ls ! i) (ls ! Suc i)]\<rparr>)"
  by (simp add: Board_save_def Let_def nth_append)

lemma Board_restore_rec:
  "Board_restore \<lparr>layerIdx = i, layers = ls\<rparr> =
     (if 0 < i then \<lparr>layerIdx = i - 1, layers = ls\<rparr> else \<lparr>layerIdx = i, layers = ls\<rparr>)"
  by (simp add: Board_restore_def)

lemma copyLayer_rec:
  "copyLayer \<lparr>clock = c, moveNum = mn, ep = e, status = st, castles = cs, board = bd,
       attacks = at, turn = t, seen = sn, moveCache = mc, pieceList = pl\<rparr>
     \<lparr>clock = c', moveNum = mn', ep = e', status = st', castles = cs', board = bd',
       attacks = at', turn = t', seen = sn', moveCache = mc', pieceList = pl'\<rparr> =
     \<lparr>clock = c, moveNum = mn, ep = e, status = st, castles = cs, board = bd,
       attacks = at, turn = t, seen = Map.empty,
       moveCache = mc'(COLOR_WHITE := mc COLOR_WHITE, COLOR_BLACK := mc COLOR_BLACK),
       pieceList = pl\<rparr>"
  by (simp add: copyLayer_def)

lemma putBoardHash_rec:
  "putBoardHash \<lparr>layerIdx = i, layers = ls\<rparr> h =
     (case findSeen ls i h of
        Some (idx, v) \<Rightarrow> (js_add 1 v, \<lparr>layerIdx = i, layers = ls[i := (ls ! i)\<lparr>seen := (seen (ls ! i))(h \<mapsto> js_add 1 v)\<rparr>]\<rparr>)
      | None \<Rightarrow> (Num 1, \<lparr>layerIdx = i, layers = ls[i := (ls ! i)\<lparr>seen := (seen (ls ! i))(h \<mapsto> Num 1)\<rparr>]\<rparr>))"
  by (simp add: putBoardHash_def set_current_def current_def Let_def split: option.split)

lemma removeBoardHash_rec:
  "removeBoardHash \<lparr>layerIdx = i, layers = ls\<rparr> h =
     (case findSeen ls i h of
        Some (idx, v) \<Rightarrow> \<lparr>layerIdx = i, layers = ls[i := (ls ! i)\<lparr>seen := (seen (ls ! i))(h \<mapsto> js_dec (seen (ls ! i) h))\<rparr>]\<rparr>
      | None \<Rightarrow> \<lparr>layerIdx = i, layers = ls\<rparr>)"
  by (simp add: removeBoardHash_def set_current_def current_def split: option.split)

lemma performMove_meta_rec:
  "performMove_meta \<lparr>clock = c, moveNum = mn, ep = e, status = st, castles = cs, board = bd,
       attacks = at, turn = t, seen = sn, moveCache = mc, pieceList = pl\<rparr> m =
     \<lparr>clock = (if spaceGetType (what m) = PIECETYPE_PAWN \<or> capture m \<noteq> 0 then 0 else c + 1),
      moveNum = (if spaceGetColor (what m) = COLOR_BLACK then mn + 1 else mn),
      ep = (if markEnPassant m \<noteq> 0 then markEnPassant m else 0x88),
      status = st, castles = performMove_castles cs m, board = bd, attacks = at,
      turn = 8 - t, seen = sn, moveCache = mc(COLOR_WHITE := None, COLOR_BLACK := None),
      pieceList = pl\<rparr>"
  by (simp add: performMove_meta_def)

lemma revertMove_meta_rec:
  "revertMove_meta \<lparr>clock = c, moveNum = mn, ep = e, status = st, castles = cs, board = bd,
       attacks = at, turn = t, seen = sn, moveCache = mc, pieceList = pl\<rparr> m =
     \<lparr>clock = clock (prior m), moveNum = moveNum (prior m), ep = ep (prior m),
      status = status (prior m), castles = castles (prior m), board = bd, attacks = at,
      turn = 8 - t, seen = sn, moveCache = mc(COLOR_WHITE := None, COLOR_BLACK := None),
      pieceList = pl\<rparr>"
  by (simp add: revertMove_meta_def)

lemma findMoves_ray_rec:
  "findMoves_ray \<lparr>layerIdx = i, layers = ls\<rparr> sp idx step newIdx (numeral k) out pr =
     (if newIdx AND 0x88 \<noteq> 0 then Some (\<lparr>layerIdx = i, layers = ls\<rparr>, out)
      else do {
        newSp \<leftarrow> Board_get \<lparr>layerIdx = i, layers = ls\<rparr> newIdx;
        if newSp = SPACE_EMPTY then do {
          (b', out') \<leftarrow> tryPushMove \<lparr>layerIdx = i, layers = ls\<rparr> out (createSimpleMove sp idx newIdx pr);
          findMoves_ray b' sp idx step (newIdx + step) (pred_numeral k) out' pr }
        else if spaceGetColor newSp = 8 - spaceGetColor sp
        then tryPushMove \<lparr>layerIdx = i, layers = ls\<rparr> out (createSimpleCapture sp idx newIdx newSp newIdx pr)
        else Some (\<lparr>layerIdx = i, layers = ls\<rparr>, out)
      })"
  by (simp add: numeral_eq_Suc)

lemmas run_rules = current_rec set_current_rec Layer_set_rec Board_set_rec Board_save_rec
  Board_restore_rec copyLayer_rec putBoardHash_rec removeBoardHash_rec performMove_meta_rec
  revertMove_meta_rec findMoves_ray_rec newLayer_def
  listAllValidMoves_def Board_get_def in_array_def listValidMoves_def
  findMoves_def DIRS_def tryPushMove_def performMove_def hashBoard_def
  kingInDanger_def attackMapIsAttacked_def getPriorState_def
  tryCastle_def findKingCastles_def castleMapGetFile_def
  spaceGetType_def spaceGetColor_def spaceHasMoved_def SPACE_EMPTY_def
  PIECETYPE_KING_def PIECETYPE_QUEEN_def PIECETYPE_ROOK_def PIECETYPE_BISHOP_def
  PIECETYPE_KNIGHT_def PIECETYPE_PAWN_def
  COLOR_WHITE_def COLOR_BLACK_def GAMESTATUS_ACTIVE_def
  createSimpleMove_def createFullMove_def createSimpleCapture_def createCastle_def
  pieceList_remove_def performMove_castles_def castleMapKingMoved_def Let_def

lemma squares_eq: "squares = [0,1,2,3,4,5,6,7,16,17,18,19,20,21,22,23,32,33,34,35,36,37,38,39,
   48,49,50,51,52,53,54,55,64,65,66,67,68,69,70,71,80,81,82,83,84,85,86,87,
   96,97,98,99,100,101,102,103,112,113,114,115,116,117,118,119]"
proof -
  have "[0..127::int] = 0 # 1 # [2..127]"
    using upto_rec1[of 0 "127::int"] upto_rec1[of 1 "127::int"] by simp
  then show ?thesis unfolding squares_def by simp
qed

lemma ray_reaches_numeral:
  "ray_reaches bd (numeral k) sq step x =
     (if (sq + step) AND 0x88 \<noteq> 0 then False
      else if sq + step = x then True
      else if bd ! nat (sq + step) \<noteq> SPACE_EMPTY then False
      else ray_reaches bd (pred_numeral k) (sq + step) step x)"
  by (simp add: numeral_eq_Suc Let_def)

lemma piece_attacks_unfold:
  "piece_attacks bd s x =
     (if bd ! nat s AND 7 = 1 then
        (x = s + (if bd ! nat s AND 8 = 0 then 16 else -16) - 1 \<or> x = s + (if bd ! nat s AND 8 = 0 then 16 else -16) + 1)
      else if bd ! nat s AND 7 = 3 then list_ex (\<lambda>d. x = s + d) KNIGHT
      else if bd ! nat s AND 7 = 6 then list_ex (\<lambda>d. x = s + d) DIRS
      else if bd ! nat s AND 7 = 2 then list_ex (\<lambda>d. ray_reaches bd 8 s d x) (drop 4 DIRS)
      else if bd ! nat s AND 7 = 4 then list_ex (\<lambda>d. ray_reaches bd 8 s d x) (take 4 DIRS)
      else if bd ! nat s AND 7 = 5 then list_ex (\<lambda>d. ray_reaches bd 8 s d x) DIRS
      else False)"
  by (simp add: piece_attacks_def Let_def PAWN_CAPS_def spaceGetType_def spaceGetColor_def
      PIECETYPE_KING_def PIECETYPE_QUEEN_def PIECETYPE_ROOK_def PIECETYPE_BISHOP_def
      PIECETYPE_KNIGHT_def PIECETYPE_PAWN_def COLOR_WHITE_def)

lemma attack_count_unfold:
  "attack_count bd x c =
     (if x AND 0x88 \<noteq> 0 then 0
      else length (filter (\<lambda>s. bd ! nat s \<noteq> 0 \<and> bd ! nat s AND 8 = c
                              \<and> piece_attacks bd s x) squares))"
  by (simp add: attack_count_def SPACE_EMPTY_def spaceGetColor_def)

lemmas attack_rules = attack_map_nth attack_count_unfold squares_eq piece_attacks_unfold
  ray_reaches_numeral KNIGHT_def

lemma wf_newLayer: "wf_layer newLayer"
  using in_array_nat by (auto simp: wf_layer_def newLayer_def SPACE_EMPTY_def)

lemma wf_kr_layer: "wf_layer kr_layer"
  unfolding kr_layer_def
  by (intro Layer_set_wf wf_newLayer) (simp_all add: SPACE_EMPTY_def)

lemma kr_layer_eq: "kr_layer = \<lparr>clock = 0, moveNum = 1, ep = 136, status = 0, castles = 0,
        board = (replicate 128 0)[0 := 22, 113 := 28, 119 := 30],
        attacks = attack_map ((replicate 128 0)[0 := 22, 113 := 28, 119 := 30]),
        turn = 0, seen = \<lambda>x. None, moveCache = \<lambda>c. None,
        pieceList = [0, 113, 119]\<rparr>"
  by (simp add: kr_layer_def run_rules)

lemma kr_board_moves: "map_option snd (listAllValidMoves kr_board COLOR_WHITE) = Some [king_a1_a2]"
  by (simp add: kr_board_def kr_layer_eq king_a1_a2_def run_rules attack_rules)

text \<open>
  With the white king on a1 and a black rook on the b-file, the generator returns the
  step to a2 alone, and the king is safe there.
\<close>

theorem listAllValidMoves_king_safe_witness:
  "wfb kr_board \<and> wf_layer (current kr_board) \<and> moveCache (current kr_board) COLOR_WHITE = None
   \<and> map_option snd (listAllValidMoves kr_board COLOR_WHITE) = Some [king_a1_a2]
   \<and> (\<exists>b2. performMove kr_board king_a1_a2 = Some b2 \<and> kingInDanger b2 COLOR_WHITE = Some False)"
proof -
  have w: "wfb kr_board" by (simp add: wfb_def kr_board_def)
  have c: "current kr_board = kr_layer" by (simp add: current_def kr_board_def)
  have n: "moveCache (current kr_board) COLOR_WHITE = None" unfolding c by (simp add: kr_layer_eq)
  from kr_board_moves obtain b' where l: "listAllValidMoves kr_board COLOR_WHITE = Some (b', [king_a1_a2])"
    by (cases "listAllValidMoves kr_board COLOR_WHITE") auto
  have "wf_layer (current kr_board)" unfolding c by (rule wf_kr_layer)
  from listAllValidMoves_king_safe[OF w this n l] this w n kr_board_moves show ?thesis by simp
qed

lemmas gamestatus_defs =
  GAMESTATUS_ACTIVE_def GAMESTATUS_CHECKMATE_def GAMESTATUS_RESIGNED_def GAMESTATUS_DRAW_def
  GAMESTATUS_DRAW_STALEMATE_def GAMESTATUS_DRAW_REPETITION_def GAMESTATUS_DRAW_FIFTYMOVES_def
  GAMESTATUS_DRAW_NOMATERIAL_def

subsection \<open>The outcome of a move\<close>

lemma findSeen_cong:
  "\<forall>j\<le>i. seen (ls ! j) = seen (ls' ! j) \<Longrightarrow> findSeen ls i h = findSeen ls' i h"
  by (induction i) (simp_all split: option.split)

lemma findSeen_nearest:
  "map_option snd (findSeen ls i h) =
     (case filter (\<lambda>j. seen (ls ! j) h \<noteq> None) (rev [0..<Suc i]) of
        [] \<Rightarrow> None
      | j # rest \<Rightarrow> seen (ls ! j) h)"
  by (induction i) (auto split: option.split)

lemma timesSeenBefore_findSeen:
  "timesSeenBefore b h = map_option snd (findSeen (layers b) (layerIdx b) h)"
  unfolding timesSeenBefore_def findSeen_nearest by (rule refl)

lemma listAllValidMoves_keeps:
  assumes w: "wfb b" and t: "listAllValidMoves b color = Some (b', ms)"
  shows "layerIdx b' = layerIdx b" and "wfb b'"
    and "\<exists>mc. current b' = (current b)\<lparr>moveCache := mc\<rparr>"
    and "\<forall>j<layerIdx b. layers b' ! j = layers b ! j"
proof -
  have "layerIdx b' = layerIdx b \<and> wfb b' \<and> (\<exists>mc. current b' = (current b)\<lparr>moveCache := mc\<rparr>)
      \<and> (\<forall>j<layerIdx b. layers b' ! j = layers b ! j)"
  proof (cases "moveCache (current b) color")
    case (Some cached)
    with t have "b' = b" by (simp add: listAllValidMoves_def)
    moreover have "current b = (current b)\<lparr>moveCache := moveCache (current b)\<rparr>" by simp
    ultimately show ?thesis using w by blast
  next
    case None
    with t obtain b1 where l: "listAll_loop b color (pieceList (current b)) [] = Some (b1, ms)"
      and b': "b' = set_current b1 ((current b1)\<lparr>moveCache := (moveCache (current b1))(color := Some ms)\<rparr>)"
      unfolding listAllValidMoves_def by (auto simp: bind_eq_Some_conv)
    from listAll_loop_Some[OF w l] have f: "frame b b1" by blast
    have w1: "wfb b1" using frame_wfb[OF f] by blast
    have i: "layerIdx b' = layerIdx b" unfolding b' using f by (simp add: set_current_def frame_def)
    have w': "wfb b'" unfolding b' by (rule frame_set_current_wfb[OF w1])
    have c: "current b' = (current b)\<lparr>moveCache := (moveCache (current b))(color := Some ms)\<rparr>"
      unfolding b' current_set_current[OF w1] frame_current[OF f] by (rule refl)
    have "\<forall>j<layerIdx b. layers b' ! j = layers b ! j"
    proof (intro allI impI)
      fix j assume j: "j < layerIdx b"
      from f have tk: "take (Suc (layerIdx b)) (layers b1) = take (Suc (layerIdx b)) (layers b)"
        and li: "layerIdx b1 = layerIdx b" by (simp_all add: frame_def)
      have "layers b' ! j = layers b1 ! j" unfolding b' set_current_def using j li by simp
      also have "\<dots> = layers b ! j" using take_eq_nth[OF tk, of j] j by simp
      finally show "layers b' ! j = layers b ! j" .
    qed
    with i w' c show ?thesis by blast
  qed
  then show "layerIdx b' = layerIdx b" and "wfb b'"
    and "\<exists>mc. current b' = (current b)\<lparr>moveCache := mc\<rparr>"
    and "\<forall>j<layerIdx b. layers b' ! j = layers b ! j" by blast+
qed

lemma listAllValidMoves_seen:
  assumes w: "wfb b" and t: "listAllValidMoves b color = Some (b', ms)"
  shows "timesSeenBefore b' h = timesSeenBefore b h" and "hashBoard b' = hashBoard b"
    and "clock (current b') = clock (current b)" and "status (current b') = status (current b)"
proof -
  note k = listAllValidMoves_keeps[OF w t]
  from k(3) obtain mc where c: "current b' = (current b)\<lparr>moveCache := mc\<rparr>" by blast
  have "\<forall>j\<le>layerIdx b. seen (layers b' ! j) = seen (layers b ! j)"
  proof (intro allI impI)
    fix j assume "j \<le> layerIdx b"
    then consider "j < layerIdx b" | "j = layerIdx b" by linarith
    then show "seen (layers b' ! j) = seen (layers b ! j)"
    proof cases
      case 1
      with k(4) show ?thesis by simp
    next
      case 2
      with c k(1) show ?thesis by (simp add: current_def)
    qed
  qed
  from findSeen_cong[OF this] show "timesSeenBefore b' h = timesSeenBefore b h"
    unfolding timesSeenBefore_findSeen k(1) by simp
  show "hashBoard b' = hashBoard b" unfolding hashBoard_def c by simp
  show "clock (current b') = clock (current b)" unfolding c by simp
  show "status (current b') = status (current b)" unfolding c by simp
qed

lemma putBoardHash_count:
  "js_ge (fst (putBoardHash b h)) 3 = (\<exists>k. timesSeenBefore b h = Some (Num k) \<and> 2 \<le> k)"
proof (cases "findSeen (layers b) (layerIdx b) h")
  case None
  then show ?thesis by (simp add: putBoardHash_def timesSeenBefore_findSeen)
next
  case (Some p)
  obtain i v where p: "p = (i, v)" by (cases p)
  show ?thesis
  proof (cases v)
    case (Num n)
    with Some p show ?thesis by (auto simp: putBoardHash_def timesSeenBefore_findSeen Let_def)
  next
    case NaN
    with Some p show ?thesis by (simp add: putBoardHash_def timesSeenBefore_findSeen Let_def)
  qed
qed

lemma putBoardHash_current:
  "wfb b \<Longrightarrow> \<exists>sn. current (snd (putBoardHash b h)) = (current b)\<lparr>seen := sn\<rparr>"
  using putBoardHash_snd[of b h] current_set_current[of b] by metis

text \<open>
  Claim C3. After a move of \<open>moveColor\<close>, with \<open>inCheck\<close> what \<open>kingInDanger\<close> says of
  the enemy king and \<open>ms\<close> the enemy's legal moves, \<open>checkMoveResults\<close> reports both and
  classifies in this order: no enemy move gives checkmate when the enemy is in check and
  stalemate otherwise, whatever the clock, the count and the material are; else a clock
  of at least 100 gives the fifty-move draw; else a position that \<open>seen\<close> has already
  counted at least twice, so that it now occurs for at least the third time, gives the
  repetition draw; else lacking material gives the material draw; else the status
  stays. So in a game that is active, the result is checkmate exactly when the enemy has
  no move and is in check, the fifty-move draw exactly when the enemy can move and the
  clock has reached 100, and the repetition draw exactly when the enemy can move, the
  clock is below 100 and the count reaches 3 or more.
\<close>

theorem checkMoveResults_precedence:
  assumes w: "wfb b"
    and kd: "kingInDanger b (8 - moveColor) = Some inCheck"
    and lm: "listAllValidMoves b (8 - moveColor) = Some (b1, ms)"
  shows "\<exists>r b2. checkMoveResults lacks b moveColor = Some (r, b2)
      \<and> b2 = snd (putBoardHash b1 (hashBoard b))
      \<and> enemyInCheck r = inCheck \<and> enemyCanMove r = (ms \<noteq> [])
      \<and> newGameStatus r =
          (if ms = [] then (if inCheck then GAMESTATUS_CHECKMATE else GAMESTATUS_DRAW_STALEMATE)
           else if 100 \<le> clock (current b) then GAMESTATUS_DRAW_FIFTYMOVES
           else if (\<exists>k. timesSeenBefore b (hashBoard b) = Some (Num k) \<and> 2 \<le> k)
             then GAMESTATUS_DRAW_REPETITION
           else if lacks b2 then GAMESTATUS_DRAW_NOMATERIAL
           else status (current b))
      \<and> (status (current b) = GAMESTATUS_ACTIVE \<longrightarrow>
            (newGameStatus r = GAMESTATUS_CHECKMATE \<longleftrightarrow> ms = [] \<and> inCheck)
          \<and> (newGameStatus r = GAMESTATUS_DRAW_FIFTYMOVES \<longleftrightarrow> ms \<noteq> [] \<and> 100 \<le> clock (current b))
          \<and> (newGameStatus r = GAMESTATUS_DRAW_REPETITION \<longleftrightarrow>
                ms \<noteq> [] \<and> clock (current b) < 100
                \<and> (\<exists>k. timesSeenBefore b (hashBoard b) = Some (Num k) \<and> 2 \<le> k)))"
proof -
  note s = listAllValidMoves_seen[OF w lm]
  have w1: "wfb b1" by (rule listAllValidMoves_keeps(2)[OF w lm])
  define b2 where "b2 = snd (putBoardHash b1 (hashBoard b))"
  define n where "n = fst (putBoardHash b1 (hashBoard b))"
  define third where "third = (\<exists>k. timesSeenBefore b (hashBoard b) = Some (Num k) \<and> 2 \<le> k)"
  define r where "r = \<lparr>enemyInCheck = inCheck, enemyCanMove = (0 < length ms),
     newGameStatus = nextState lacks b2 inCheck (0 < length ms) n\<rparr>"
  have pb: "putBoardHash b1 (hashBoard b1) = (n, b2)" unfolding n_def b2_def s(2) by simp
  have cm: "checkMoveResults lacks b moveColor = Some (r, b2)"
    unfolding checkMoveResults_def r_def by (simp add: kd lm pb Let_def)
  have ge: "js_ge n 3 = third"
    unfolding n_def third_def putBoardHash_count s(1) by (rule refl)
  from putBoardHash_current[OF w1, of "hashBoard b"] obtain sn where
    "current b2 = (current b1)\<lparr>seen := sn\<rparr>" unfolding b2_def by blast
  then have cl: "clock (current b2) = clock (current b)" and st: "status (current b2) = status (current b)"
    using s(3,4) by simp_all
  have ns: "newGameStatus r =
          (if ms = [] then (if inCheck then GAMESTATUS_CHECKMATE else GAMESTATUS_DRAW_STALEMATE)
           else if 100 \<le> clock (current b) then GAMESTATUS_DRAW_FIFTYMOVES
           else if third then GAMESTATUS_DRAW_REPETITION
           else if lacks b2 then GAMESTATUS_DRAW_NOMATERIAL
           else status (current b))"
    unfolding r_def by (simp add: nextState_def Let_def ge cl st)
  have act: "status (current b) = GAMESTATUS_ACTIVE \<longrightarrow>
            (newGameStatus r = GAMESTATUS_CHECKMATE \<longleftrightarrow> ms = [] \<and> inCheck)
          \<and> (newGameStatus r = GAMESTATUS_DRAW_FIFTYMOVES \<longleftrightarrow> ms \<noteq> [] \<and> 100 \<le> clock (current b))
          \<and> (newGameStatus r = GAMESTATUS_DRAW_REPETITION \<longleftrightarrow>
                ms \<noteq> [] \<and> clock (current b) < 100 \<and> third)"
    unfolding ns by (auto simp: gamestatus_defs)
  have "enemyInCheck r = inCheck" "enemyCanMove r = (ms \<noteq> [])" unfolding r_def by simp_all
  with cm ns act show ?thesis unfolding third_def b2_def by blast
qed

lemma kr_seen_twice_moves:
  "map_option snd (listAllValidMoves kr_seen_twice (8 - COLOR_BLACK)) = Some [king_a1_a2]"
  by (simp add: kr_seen_twice_def kr_board_def kr_layer_eq king_a1_a2_def run_rules attack_rules)

text \<open>
  Black has moved into the rook position, which \<open>seen\<close> has counted twice already. The
  white king is not attacked and has the step to a2, the clock is 0, and the position
  occurs for the third time: the result is the repetition draw.
\<close>

theorem checkMoveResults_precedence_witness:
  "wfb kr_seen_twice
   \<and> kingInDanger kr_seen_twice (8 - COLOR_BLACK) = Some False
   \<and> map_option snd (listAllValidMoves kr_seen_twice (8 - COLOR_BLACK)) = Some [king_a1_a2]
   \<and> clock (current kr_seen_twice) = 0
   \<and> timesSeenBefore kr_seen_twice (hashBoard kr_seen_twice) = Some (Num 2)
   \<and> map_option (\<lambda>p. newGameStatus (fst p)) (checkMoveResults (\<lambda>b. False) kr_seen_twice COLOR_BLACK)
       = Some GAMESTATUS_DRAW_REPETITION"
proof -
  have w: "wfb kr_seen_twice" by (simp add: wfb_def kr_seen_twice_def)
  have kd: "kingInDanger kr_seen_twice (8 - COLOR_BLACK) = Some False"
    by (simp add: kr_seen_twice_def kr_layer_eq run_rules attack_rules)
  from kr_seen_twice_moves obtain b1 where
    l: "listAllValidMoves kr_seen_twice (8 - COLOR_BLACK) = Some (b1, [king_a1_a2])"
    by (cases "listAllValidMoves kr_seen_twice (8 - COLOR_BLACK)") auto
  have c: "clock (current kr_seen_twice) = 0"
    by (simp add: kr_seen_twice_def kr_layer_eq current_def)
  have t: "timesSeenBefore kr_seen_twice (hashBoard kr_seen_twice) = Some (Num 2)"
    by (simp add: timesSeenBefore_def kr_seen_twice_def kr_board_def kr_layer_eq hashBoard_def
        current_def)
  from checkMoveResults_precedence[OF w kd l, of "\<lambda>b. False"] c t
  have "map_option (\<lambda>p. newGameStatus (fst p)) (checkMoveResults (\<lambda>b. False) kr_seen_twice COLOR_BLACK)
       = Some GAMESTATUS_DRAW_REPETITION"
    by auto
  with w kd kr_seen_twice_moves c t show ?thesis by blast
qed

subsection \<open>Perft at depth one and below\<close>

text \<open>
  Claim C9. For a depth of at most one (zero and the negative depths among them)
  \<open>perft\<close> returns the length of the list that \<open>listAllValidMoves\<close> gives for the side
  to move, and throws only when that call throws; so at depth zero it returns what it
  returns at depth one.
\<close>

theorem perft_shallow:
  assumes "depth \<le> 1"
  shows "perft b depth =
           (case listAllValidMoves b (turn (current b)) of
              None \<Rightarrow> None
            | Some (b', ms) \<Rightarrow> Some (int (length ms), b'))
         \<and> perft b depth = perft b 1"
  using assms by (simp add: perft.simps[of b depth] perft.simps[of b 1] split: option.split)

text \<open>
  With the white king on a1 and the black rook on the b-file, \<open>perft\<close> at depth zero
  counts the one move of the white king.
\<close>

theorem perft_shallow_witness:
  "(0::int) \<le> 1 \<and> map_option fst (perft kr_board 0) = Some 1 \<and> perft kr_board 0 = perft kr_board 1"
proof -
  have t: "turn (current kr_board) = COLOR_WHITE"
    by (simp add: current_def kr_board_def kr_layer_eq COLOR_WHITE_def)
  from kr_board_moves obtain b' where l: "listAllValidMoves kr_board COLOR_WHITE = Some (b', [king_a1_a2])"
    by (cases "listAllValidMoves kr_board COLOR_WHITE") auto
  have p: "(0::int) \<le> 1" by simp
  note ps = perft_shallow[where b = kr_board and depth = 0, OF p]
  have "perft kr_board 0 = Some (1, b')" using ps[THEN conjunct1] by (simp add: t l)
  then have "map_option fst (perft kr_board 0) = Some 1" by simp
  with ps[THEN conjunct2] p show ?thesis by blast
qed

subsection \<open>Undoing a move of a game\<close>

text \<open>
  What \<open>undoMove\<close> does in terms of \<open>revertMove\<close>: nothing on a game with no history;
  otherwise it reverts the move of the last record, takes the record off the history
  and clears the winner, and throws only when \<open>revertMove\<close> throws.
\<close>

lemma undoMove_history:
  "(game_moves g = [] \<longrightarrow> undoMove g = Some g)
   \<and> (\<forall>earlier r. game_moves g = earlier @ [r] \<longrightarrow>
         undoMove g =
           (case revertMove (game_board g) (move r) of
              None \<Rightarrow> None
            | Some b \<Rightarrow> Some (g\<lparr>game_board := b, game_moves := earlier, gameWinner := None\<rparr>)))"
  by (auto simp: undoMove_def split: option.split)

lemma c960_layer_eq: "c960_layer = \<lparr>clock = 0, moveNum = 1, ep = 136, status = 0, castles = 34951,
        board = (replicate 128 0)[5 := 6, 7 := 4, 116 := 30],
        attacks = attack_map ((replicate 128 0)[5 := 6, 7 := 4, 116 := 30]),
        turn = 0, seen = \<lambda>x. None, moveCache = \<lambda>c. None,
        pieceList = [5, 7, 116]\<rparr>"
  by (simp add: c960_layer_def run_rules)

lemma c960_castle_listed:
  "map_option (\<lambda>p. c960_castle \<in> set (snd p)) (listAllValidMoves c960_board COLOR_WHITE) = Some True"
  by (simp add: c960_board_def c960_layer_eq c960_castle_def run_rules attack_rules)

text \<open>
  Claim C10. In the Chess960 position with the king on f1 and the rook on h1 the
  generator lists the kingside castle. The castle is applied, and the game whose
  history is that castle is undone. \<open>revertMove\<close> puts the king back on f1, empties g1,
  and then empties the rook's destination, which is f1: after \<open>undoMove\<close> the squares
  f1 and g1 are both empty and the piece list has lost the king, where the position
  before the move had the king on f1.
\<close>

theorem undoMove_castle_loses_king:
  "map_option (\<lambda>p. c960_castle \<in> set (snd p)) (listAllValidMoves c960_board COLOR_WHITE) = Some True
   \<and> map (\<lambda>i. board (current c960_board) ! i) [5, 6, 7] = [6, 0, 4]
   \<and> pieceList (current c960_board) = [5, 7, 116]
   \<and> (\<exists>b. performMove c960_board c960_castle = Some b
        \<and> map (\<lambda>i. board (current b) ! i) [5, 6, 7] = [20, 22, 0]
        \<and> map_option (\<lambda>g. map (\<lambda>i. board (current (game_board g)) ! i) [5, 6, 7])
             (undoMove (c960_game b)) = Some [0, 0, 4]
        \<and> map_option (\<lambda>g. pieceList (current (game_board g))) (undoMove (c960_game b))
             = Some [116, 7])"
  by (simp add: c960_castle_listed)
     (simp add: c960_board_def c960_layer_eq c960_castle_def c960_game_def undoMove_def
        revertMove_def indexOf.simps run_rules)

subsection \<open>The counts of seen positions\<close>

text \<open>
  Claim C7. \<open>removeBoardHash\<close> finds the nearest layer that has the hash, but the
  entry it decrements is the one of the current layer. When the nearest occurrence
  lies below the current layer, the count there stays as it was (here 2), the current
  layer gets the entry \<open>NaN\<close>, and the next \<open>putBoardHash\<close> of the hash returns \<open>NaN\<close>
  where it returned 3 before the removal.
\<close>

theorem removeBoardHash_below_current:
  "fst (putBoardHash seen_below seen_hash) = Num 3
   \<and> seen (layers (removeBoardHash seen_below seen_hash) ! 0) seen_hash = Some (Num 2)
   \<and> seen (current (removeBoardHash seen_below seen_hash)) seen_hash = Some NaN
   \<and> fst (putBoardHash (removeBoardHash seen_below seen_hash) seen_hash) = NaN"
  by (simp add: putBoardHash_def removeBoardHash_def seen_below_def newLayer_def current_def
      set_current_def Let_def)

subsection \<open>Selecting a move by a predicate\<close>

lemma selectMove_loop_found:
  "selectMove_loop ms s fn (Some f) =
     (case filter fn ms of
        [] \<Rightarrow> Inr f
      | m # rest \<Rightarrow>
          (if promote f \<noteq> 0 \<and> promote m \<noteq> 0 then Inl ChessNeedsPromotion
           else Inl (ChessBadMove (s @ '' is ambiguous''))))"
  by (induction ms) simp_all

text \<open>
  What the loop computes, by the moves that satisfy the predicate: \<open>BadMove\<close> (is not a
  valid move) when there is none, the move when there is one, and otherwise the error
  thrown at the second, which is \<open>NeedsPromotion\<close> when the first two both carry a
  promotion piece and \<open>BadMove\<close> (is ambiguous) when one of them carries none.
\<close>

lemma selectMoveByInvariant_matches:
  "selectMoveByInvariant ms s fn =
     (case filter fn ms of
        [] \<Rightarrow> Inl (ChessBadMove (s @ '' is not a valid move''))
      | [m] \<Rightarrow> Inr m
      | f # m # rest \<Rightarrow>
          (if promote f \<noteq> 0 \<and> promote m \<noteq> 0 then Inl ChessNeedsPromotion
           else Inl (ChessBadMove (s @ '' is ambiguous''))))"
  unfolding selectMoveByInvariant_def
  by (induction ms) (simp_all add: selectMove_loop_found split: list.split)

lemma takes_e8_queen_matches:
  "filter (sanPredicate takes_e8_queen) two_pawn_promotions =
     [moveToPromotion (pawn_takes_e8 0x63) PIECETYPE_QUEEN,
      moveToPromotion (pawn_takes_e8 0x65) PIECETYPE_QUEEN]"
  by (simp add: two_pawn_promotions_def PROMOTIONS_def sanPredicate_def takes_e8_queen_def
      pawn_takes_e8_def createFullMove_def moveToPromotion_def coordFromAN_def lowerCode_def
      buildCoord_def PIECETYPE_MAP_def spaceGetType_def PIECETYPE_QUEEN_def PIECETYPE_ROOK_def
      PIECETYPE_KNIGHT_def PIECETYPE_BISHOP_def PIECETYPE_PAWN_def)

text \<open>
  Claim C5. The text \<open>xe8=Q\<close> names the promotion piece and fits two moves of the
  list, the captures from d7 and from f7, which differ by their origin and by nothing
  else. The claim has the selection fail with the ambiguity error here; the code fails
  with \<open>NeedsPromotion\<close>, the error for a promotion piece that was left out.
\<close>

theorem selectMoveByInvariant_same_promotion:
  "filter (sanPredicate takes_e8_queen) two_pawn_promotions =
     [moveToPromotion (pawn_takes_e8 0x63) PIECETYPE_QUEEN,
      moveToPromotion (pawn_takes_e8 0x65) PIECETYPE_QUEEN]
   \<and> moveToPromotion (pawn_takes_e8 0x65) PIECETYPE_QUEEN
       = (moveToPromotion (pawn_takes_e8 0x63) PIECETYPE_QUEEN)\<lparr>from' := 0x65\<rparr>
   \<and> selectMoveByInvariant two_pawn_promotions ''xe8=Q'' (sanPredicate takes_e8_queen)
       = Inl ChessNeedsPromotion"
  unfolding selectMoveByInvariant_def
  by (simp add: two_pawn_promotions_def PROMOTIONS_def sanPredicate_def takes_e8_queen_def
      pawn_takes_e8_def createFullMove_def moveToPromotion_def coordFromAN_def lowerCode_def
      buildCoord_def PIECETYPE_MAP_def spaceGetType_def PIECETYPE_QUEEN_def PIECETYPE_ROOK_def
      PIECETYPE_KNIGHT_def PIECETYPE_BISHOP_def PIECETYPE_PAWN_def)

subsection \<open>The conditions of a castle\<close>

lemma fold_set_board:
  "board (fold (\<lambda>i L. Layer_set L i sp) xs L) = fold (\<lambda>i bd. bd[nat i := sp mod 256]) xs (board L)"
  by (induction xs arbitrary: L) (simp_all add: Layer_set_board)

lemma castle_probe_board: "board (castle_probe L m) = castle_probe_board (board L) m"
  unfolding castle_probe_def castle_probe_board_def fold_set_board
  by (simp add: Layer_set_board SPACE_EMPTY_def)

lemma fold_upd_length: "length (fold (\<lambda>i bd. bd[nat i := v]) xs bd) = length bd"
  by (induction xs arbitrary: bd) simp_all

lemma fold_upd_nth:
  "k < length bd \<Longrightarrow>
     fold (\<lambda>i bd'. bd'[nat i := v]) xs bd ! k = (if k \<in> nat ` set xs then v else bd ! k)"
proof (induction xs arbitrary: bd)
  case Nil
  then show ?case by simp
next
  case (Cons a xs)
  have "k < length (bd[nat a := v])" using Cons.prems by simp
  from Cons.IH[OF this] show ?case using Cons.prems by (auto simp: nth_list_update)
qed

lemma fold_set_wf:
  "wf_layer L \<Longrightarrow> \<forall>i\<in>set xs. in_array i \<Longrightarrow> sp mod 256 \<noteq> 0 \<Longrightarrow>
     wf_layer (fold (\<lambda>i L. Layer_set L i sp) xs L)"
  by (induction xs arbitrary: L) (simp_all add: Layer_set_wf)

lemma fold_set_exact:
  "xs \<noteq> [] \<Longrightarrow> sp \<noteq> SPACE_EMPTY \<Longrightarrow> exact (fold (\<lambda>i L. Layer_set L i sp) xs L)"
proof (induction xs arbitrary: L)
  case Nil
  then show ?case by simp
next
  case (Cons a xs)
  show ?case
  proof (cases "xs = []")
    case True
    then show ?thesis using Cons.prems(2) by (simp add: Layer_set_exact_nz)
  next
    case False
    from Cons.IH[OF False Cons.prems(2)] show ?thesis by simp
  qed
qed

lemma Layer_set_empty_again:
  assumes "board L ! nat i = SPACE_EMPTY"
  shows "same_core (Layer_set L i SPACE_EMPTY) L"
proof -
  have "(board L)[nat i := board L ! nat i] = board L" by (rule list_update_id)
  then have "(board L)[nat i := 0] = board L" using assms by (simp add: SPACE_EMPTY_def)
  then show ?thesis using assms
    unfolding same_core_def Layer_set_board Layer_set_pieceList Layer_set_attacks
    by (simp add: SPACE_EMPTY_def)
qed

lemma push_result_fields:
  assumes "m \<in> set (push_result L m0)"
  shows "from' m = from' m0 \<and> to' m = to' m0 \<and> what m = what m0 \<and> castleRook m = castleRook m0
     \<and> castleRookFrom m = castleRookFrom m0 \<and> castleRookTo m = castleRookTo m0"
  using assms unfolding push_result_def by (auto simp: moveToPromotion_def split: if_splits)

lemma castle_checked_fields:
  assumes "from' m = from' m0" "to' m = to' m0" "what m = what m0"
    "castleRookFrom m = castleRookFrom m0" "castleRookTo m = castleRookTo m0"
  shows "castle_checked L m = castle_checked L m0"
  unfolding castle_checked_def castle_span_def castle_probe_def using assms by simp

text \<open>
  Claim C4. A move with a castling rook that \<open>listAllValidMoves(b, c)\<close> computes (the
  cache holds no list for \<open>c\<close>) satisfies both conditions in the position \<open>b\<close>: every
  square from the least to the greatest of the king's and the rook's origins and
  destinations is empty, the two origins apart; and every square of the king's path,
  its ends included, is a square of the board that no piece of the other color
  attacks, in the occupancy with king and rook lifted and a king on each square of the
  path. So no castle out of, through or into check is in the list.
\<close>

theorem castle_emitted_conditions:
  assumes wb: "wfb b" and wl: "wf_layer (current b)"
    and nc: "moveCache (current b) c = None"
    and l: "listAllValidMoves b c = Some (b', ms)" and mem: "m \<in> set ms"
    and cr: "castleRook m \<noteq> 0"
  shows "(\<forall>idx\<in>set (castle_span m). idx \<noteq> from' m \<and> idx \<noteq> castleRookFrom m
            \<longrightarrow> board (current b) ! nat idx = SPACE_EMPTY)
       \<and> (\<forall>idx\<in>set [min (from' m) (to' m)..max (from' m) (to' m)].
            in_array idx
            \<and> attack_count (castle_probe_board (board (current b)) m) idx (enemy_of c) = 0)"
proof -
  define L where "L = current b"
  from listAllValidMoves_uncached(1)[OF wb nc l] mem obtain idx where
    col: "spaceGetColor (board L ! nat idx) = c"
    and pe: "piece_emitted L idx m" unfolding L_def by blast
  define sp where "sp = board L ! nat idx"
  define Lc where "Lc = Layer_set L idx SPACE_EMPTY"
  from pe have ia: "in_array idx" and ne: "sp \<noteq> SPACE_EMPTY" and e: "emitted Lc sp idx m"
    unfolding piece_emitted_def sp_def Lc_def by blast+
  from e obtain m0 where cd: "cand Lc sp idx m0" and sq: "move_squares_ok m0"
    and pm: "m \<in> set (push_result Lc m0)" unfolding emitted_def by blast
  note f = push_result_fields[OF pm]
  from cd f cr have wh: "what m = sp" and fr: "from' m = idx"
    and kg: "spaceGetType sp = PIECETYPE_KING" and cc0: "castle_checked Lc m0"
    unfolding cand_def by auto
  have cc: "castle_checked Lc m"
    using castle_checked_fields[of m m0 Lc] f cc0 by simp
  from sq f cr have sqs: "in_array (from' m)" "in_array (to' m)" "in_array (castleRookFrom m)"
    "in_array (castleRookTo m)" unfolding move_squares_ok_def by auto
  from cc have A: "\<forall>i\<in>set (castle_span m). i \<noteq> from' m \<and> i \<noteq> castleRookFrom m
       \<longrightarrow> board Lc ! nat i = SPACE_EMPTY"
    and P: "\<forall>i\<in>set [min (from' m) (to' m)..max (from' m) (to' m)]. in_array i"
    and D: "\<not> danger (castle_probe Lc m) (spaceGetColor (what m))"
    unfolding castle_checked_def by blast+
  from wl have len: "length (board L) = 128" and byt: "\<forall>x\<in>set (board L). 0 \<le> x \<and> x < 256"
    unfolding wf_layer_def L_def by blast+
  have nidx: "nat idx < 128" "0 \<le> idx" using in_array_nat[OF ia] by simp_all
  have bLc: "board Lc = (board L)[nat idx := 0]"
    unfolding Lc_def Layer_set_board by (simp add: SPACE_EMPTY_def)
  have spb: "0 \<le> sp \<and> sp < 256" unfolding sp_def using byt nidx len by simp
  have spm: "sp mod 256 = sp" using spb by simp
  have spnz: "sp mod 256 \<noteq> 0" using spm ne by (simp add: SPACE_EMPTY_def)
  have lo: "0 \<le> min (min (castleRookFrom m) (castleRookTo m)) (min (from' m) (to' m))"
    using sqs in_array_nat by (simp add: min_def)
  have a: "\<forall>i\<in>set (castle_span m). i \<noteq> from' m \<and> i \<noteq> castleRookFrom m
            \<longrightarrow> board L ! nat i = SPACE_EMPTY"
  proof (intro ballI impI)
    fix i assume i: "i \<in> set (castle_span m)" and n: "i \<noteq> from' m \<and> i \<noteq> castleRookFrom m"
    from i have "min (min (castleRookFrom m) (castleRookTo m)) (min (from' m) (to' m)) \<le> i"
      unfolding castle_span_def by simp
    with lo have "0 \<le> i" by (rule order_trans)
    with n fr nidx have "nat i \<noteq> nat idx" by auto
    then have "board Lc ! nat i = board L ! nat i" unfolding bLc by simp
    with A i n show "board L ! nat i = SPACE_EMPTY" by simp
  qed
  have "board Lc ! nat idx = SPACE_EMPTY" unfolding bLc using nidx len by (simp add: SPACE_EMPTY_def)
  then have "same_core (Layer_set Lc idx SPACE_EMPTY) Lc" by (rule Layer_set_empty_again)
  then have "same_core (Layer_set (Layer_set Lc idx SPACE_EMPTY) (castleRookFrom m) SPACE_EMPTY)
      (Layer_set Lc (castleRookFrom m) SPACE_EMPTY)" by (rule Layer_set_core)
  then have "same_core (castle_probe Lc m) (castle_probe L m)"
    unfolding castle_probe_def fr Lc_def by (rule fold_set_core)
  from danger_core[OF this] D have D': "\<not> danger (castle_probe L m) c"
    unfolding wh using col sp_def by simp
  have ne_path: "[min (from' m) (to' m)..max (from' m) (to' m)] \<noteq> []" by simp
  have wl2: "wf_layer (Layer_set (Layer_set L (from' m) SPACE_EMPTY) (castleRookFrom m) SPACE_EMPTY)"
    using wl sqs unfolding L_def by (intro Layer_set_wf) simp_all
  have wp: "wf_layer (castle_probe L m)"
    unfolding castle_probe_def wh by (rule fold_set_wf[OF wl2 P spnz])
  have ep: "exact (castle_probe L m)"
    unfolding castle_probe_def wh by (rule fold_set_exact[OF ne_path ne])
  have nd: "\<not> board_danger (castle_probe_board (board L) m) c"
    using D' danger_board[OF wp ep] castle_probe_board by simp
  have b: "\<forall>i\<in>set [min (from' m) (to' m)..max (from' m) (to' m)].
            in_array i \<and> attack_count (castle_probe_board (board L) m) i (enemy_of c) = 0"
  proof (intro ballI conjI)
    fix i assume i: "i \<in> set [min (from' m) (to' m)..max (from' m) (to' m)]"
    from P i show ia': "in_array i" by blast
    have "nat i < length ((board L)[nat (from' m) := 0, nat (castleRookFrom m) := 0])"
      using in_array_nat[OF ia'] len by simp
    from fold_upd_nth[OF this, of "what m mod 256" "[min (from' m) (to' m)..max (from' m) (to' m)]"] i
    have "castle_probe_board (board L) m ! nat i = sp"
      unfolding castle_probe_board_def wh spm by auto
    with nd ia' kg col sp_def show "attack_count (castle_probe_board (board L) m) i (enemy_of c) = 0"
      unfolding board_danger_def by auto
  qed
  from a b show ?thesis unfolding L_def by blast
qed

lemma wf_c960_layer: "wf_layer c960_layer"
proof -
  have "wf_layer (newLayer\<lparr>castles := 0x8887\<rparr>)" using wf_newLayer by (simp add: wf_layer_def)
  then show ?thesis unfolding c960_layer_def by (intro Layer_set_wf) (simp_all add: SPACE_EMPTY_def)
qed

text \<open>
  In the Chess960 position with the king on f1 and the rook on h1 the kingside castle
  is in the list: g1, the one square of the span that is no origin, is empty, and
  neither f1 nor g1 is attacked by black.
\<close>

theorem castle_emitted_conditions_witness:
  "wfb c960_board \<and> wf_layer (current c960_board)
   \<and> moveCache (current c960_board) COLOR_WHITE = None
   \<and> map_option (\<lambda>p. c960_castle \<in> set (snd p)) (listAllValidMoves c960_board COLOR_WHITE) = Some True
   \<and> castleRook c960_castle \<noteq> 0
   \<and> castle_span c960_castle = [5, 6, 7]
   \<and> board (current c960_board) ! 6 = SPACE_EMPTY
   \<and> attack_count (castle_probe_board (board (current c960_board)) c960_castle) 5 COLOR_BLACK = 0
   \<and> attack_count (castle_probe_board (board (current c960_board)) c960_castle) 6 COLOR_BLACK = 0"
proof -
  have w: "wfb c960_board" by (simp add: wfb_def c960_board_def)
  have c: "current c960_board = c960_layer" by (simp add: current_def c960_board_def)
  have wl: "wf_layer (current c960_board)" unfolding c by (rule wf_c960_layer)
  have n: "moveCache (current c960_board) COLOR_WHITE = None" unfolding c by (simp add: c960_layer_eq)
  from c960_castle_listed obtain b' ms where
    l: "listAllValidMoves c960_board COLOR_WHITE = Some (b', ms)" and mem: "c960_castle \<in> set ms"
    by (cases "listAllValidMoves c960_board COLOR_WHITE") auto
  have f: "from' c960_castle = 5" "to' c960_castle = 6" "castleRookFrom c960_castle = 7"
    "castleRookTo c960_castle = 5" "castleRook c960_castle = 4"
    by (simp_all add: c960_castle_def createCastle_def createFullMove_def)
  have cr: "castleRook c960_castle \<noteq> 0" using f by simp
  have sp: "castle_span c960_castle = [5, 6, 7]" unfolding castle_span_def f by simp
  have en: "enemy_of COLOR_WHITE = COLOR_BLACK"
    by (simp add: enemy_of_def COLOR_WHITE_def COLOR_BLACK_def)
  note t = castle_emitted_conditions[OF w wl n l mem cr]
  from t[THEN conjunct1] have "board (current c960_board) ! 6 = SPACE_EMPTY"
    unfolding sp f by simp
  moreover from t[THEN conjunct2] have
    "attack_count (castle_probe_board (board (current c960_board)) c960_castle) 5 COLOR_BLACK = 0"
    "attack_count (castle_probe_board (board (current c960_board)) c960_castle) 6 COLOR_BLACK = 0"
    unfolding f en by simp_all
  ultimately show ?thesis using w wl n c960_castle_listed cr sp by simp
qed

subsection \<open>The array that the generator returns\<close>

text \<open>
  Claim C8. On the rook position with nothing cached, the first call returns the very
  array it stores in the cache: the address returned is the address cached. When the
  caller then empties the array it was given, the next call, which copies the cached
  array, returns an empty list, although the position still has the king's step to a2.
\<close>

theorem listAllValidMoves_returns_cached_array:
  "\<exists>s1 a. listAllValidMoves_arr kr_arrays COLOR_WHITE = Some (s1, a)
     \<and> ab_cache s1 COLOR_WHITE = Some a
     \<and> ab_arrays s1 a = [king_a1_a2]
     \<and> (\<exists>s2 a2. listAllValidMoves_arr (s1\<lparr>ab_arrays := (ab_arrays s1)(a := [])\<rparr>) COLOR_WHITE
                   = Some (s2, a2)
          \<and> a2 \<noteq> a \<and> ab_arrays s2 a2 = [])"
  by (simp add: listAllValidMoves_arr_def kr_arrays_def kr_board_def kr_layer_eq king_a1_a2_def
      run_rules attack_rules)

subsection \<open>Applying and reverting a castle whose rook lands on the king's origin\<close>

text \<open>
  Claim C1. The kingside castle of the Chess960 position is a move of the generator's
  list. It is applied and then reverted. The clock, the move number, the en-passant
  target, the castle rights and the turn are those of the position before the move,
  but the board is not: \<open>revertMove\<close> empties the rook's destination f1 after it has
  put the king back there, so f1 and g1 are both empty and the piece list holds two
  squares where it held three.
\<close>

theorem revertMove_castle_round_trip:
  "map_option (\<lambda>p. c960_castle \<in> set (snd p)) (listAllValidMoves c960_board COLOR_WHITE) = Some True
   \<and> map (\<lambda>i. board (current c960_board) ! i) [5, 6, 7] = [6, 0, 4]
   \<and> pieceList (current c960_board) = [5, 7, 116]
   \<and> (\<exists>b1 b2. performMove c960_board c960_castle = Some b1
        \<and> revertMove b1 c960_castle = Some b2
        \<and> map (\<lambda>i. board (current b2) ! i) [5, 6, 7] = [0, 0, 4]
        \<and> pieceList (current b2) = [116, 7]
        \<and> board (current b2) \<noteq> board (current c960_board)
        \<and> clock (current b2) = clock (current c960_board)
        \<and> moveNum (current b2) = moveNum (current c960_board)
        \<and> ep (current b2) = ep (current c960_board)
        \<and> castles (current b2) = castles (current c960_board)
        \<and> turn (current b2) = turn (current c960_board))"
proof -
  have ne: "\<And>xs ys :: int list. xs ! 5 \<noteq> ys ! 5 \<Longrightarrow> xs \<noteq> ys" by auto
  show ?thesis
    by (simp add: c960_castle_listed)
       (simp add: c960_board_def c960_layer_eq c960_castle_def revertMove_def indexOf.simps
          run_rules ne)
qed

end
